theory Spec2Isabelle
  imports Main
begin

section \<open>Strings\<close>

text \<open>
  A JavaScript string is modelled by the bytes of its UTF-8 encoding (\<^typ>\<open>string\<close>).
  Every pattern the program searches for is ASCII, and a substring test with an ASCII
  pattern gives the same answer on the UTF-8 bytes as on the UTF-16 code units.
\<close>

text \<open>\<^verbatim>\<open>s.startsWith(p)\<close>\<close>

definition startsWith :: "string \<Rightarrow> string \<Rightarrow> bool" where
  "startsWith s p = (take (length p) s = p)"

text \<open>\<^verbatim>\<open>s.includes(p)\<close>: \<open>p\<close> occurs in \<open>s\<close> at some position.\<close>

fun includes_str :: "string \<Rightarrow> string \<Rightarrow> bool" where
  "includes_str [] p = (p = [])"
| "includes_str (c # cs) p = (startsWith (c # cs) p \<or> includes_str cs p)"

text \<open>A status code inside a template literal: its decimal digits.\<close>

fun showNat :: "nat \<Rightarrow> string" where
  "showNat n =
     (if n < 10 then [''0123456789'' ! n]
      else showNat (n div 10) @ [''0123456789'' ! (n mod 10)])"

declare showNat.simps [simp del]

section \<open>Data model (src/lib/checker.ts, lines 1-16)\<close>

datatype AccountType = New | Legacy | PasswordProtected | NotShopify | Unknown | Error

text \<open>
  An optional field of the interface is an \<open>option\<close>: \<open>None\<close> when the object literal
  does not mention it. The field \<^verbatim>\<open>note\<close> is called \<open>note_field\<close> here.
\<close>

record CheckResult =
  url :: string
  type :: AccountType
  status :: "nat option"
  redirect :: "string option"
  note_field :: "string option"
  error :: "string option"

section \<open>URL normaliser (src/lib/checker.ts, lines 18-25 and 224-229)\<close>

text \<open>
  The code points \<^verbatim>\<open>String.prototype.trim\<close> removes (WhiteSpace and LineTerminator of
  ECMAScript), each as its UTF-8 bytes: TAB, LF, VT, FF, CR, SPACE, U+00A0, U+1680,
  U+2000 to U+200A, U+2028, U+2029, U+202F, U+205F, U+3000, U+FEFF.
\<close>

definition whiteSpace :: "string list" where
  "whiteSpace =
     [[CHR 0x09], [CHR 0x0A], [CHR 0x0B], [CHR 0x0C], [CHR 0x0D], [CHR 0x20],
      [CHR 0xC2, CHR 0xA0],
      [CHR 0xE1, CHR 0x9A, CHR 0x80],
      [CHR 0xE2, CHR 0x80, CHR 0x80], [CHR 0xE2, CHR 0x80, CHR 0x81],
      [CHR 0xE2, CHR 0x80, CHR 0x82], [CHR 0xE2, CHR 0x80, CHR 0x83],
      [CHR 0xE2, CHR 0x80, CHR 0x84], [CHR 0xE2, CHR 0x80, CHR 0x85],
      [CHR 0xE2, CHR 0x80, CHR 0x86], [CHR 0xE2, CHR 0x80, CHR 0x87],
      [CHR 0xE2, CHR 0x80, CHR 0x88], [CHR 0xE2, CHR 0x80, CHR 0x89],
      [CHR 0xE2, CHR 0x80, CHR 0x8A],
      [CHR 0xE2, CHR 0x80, CHR 0xA8], [CHR 0xE2, CHR 0x80, CHR 0xA9],
      [CHR 0xE2, CHR 0x80, CHR 0xAF],
      [CHR 0xE2, CHR 0x81, CHR 0x9F],
      [CHR 0xE3, CHR 0x80, CHR 0x80],
      [CHR 0xEF, CHR 0xBB, CHR 0xBF]]"

text \<open>Remove from the front of \<open>s\<close>, as long as there is one, an element of \<open>ws\<close>.\<close>

function stripLeading :: "string list \<Rightarrow> string \<Rightarrow> string" where
  "stripLeading ws s =
     (case find (\<lambda>w. w \<noteq> [] \<and> startsWith s w) ws of
        None \<Rightarrow> s
      | Some w \<Rightarrow> stripLeading ws (drop (length w) s))"
  by pat_completeness auto
termination
proof (relation "measure (\<lambda>(ws, s). length s)")
  show "wf (measure (\<lambda>(ws, s). length s))"
    by simp
next
  fix ws :: "string list" and s w :: string
  assume "find (\<lambda>w. w \<noteq> [] \<and> startsWith s w) ws = Some w"
  then have "w \<noteq> []" and "take (length w) s = w"
    by (auto simp: find_Some_iff startsWith_def)
  then have "s \<noteq> []"
    by auto
  with \<open>w \<noteq> []\<close> show "((ws, drop (length w) s), (ws, s)) \<in> measure (\<lambda>(ws, s). length s)"
    by simp
qed

declare stripLeading.simps [simp del]

text \<open>\<^verbatim>\<open>input.trim()\<close>: white space goes from both ends.\<close>

definition trim :: "string \<Rightarrow> string" where
  "trim s = rev (stripLeading (map rev whiteSpace) (rev (stripLeading whiteSpace s)))"

text \<open>\<^verbatim>\<open>url.replace(/\/+$/, "")\<close>: the run of slashes that ends the string goes.\<close>

definition stripTrailingSlashes :: "string \<Rightarrow> string" where
  "stripTrailingSlashes s = rev (dropWhile (\<lambda>c. c = CHR ''/'') (rev s))"

text \<open>\<^verbatim>\<open>normalizeUrl\<close>; \<open>None\<close> is \<^verbatim>\<open>null\<close>.\<close>

definition normalizeUrl :: "string \<Rightarrow> string option" where
  "normalizeUrl input =
     (let url = trim input in
      if url = [] then None
      else if startsWith url ''#'' then None
      else Some (stripTrailingSlashes
                   (if \<not> startsWith url ''http'' then ''https://'' @ url else url)))"

text \<open>
  \<^verbatim>\<open>input.split(/[\n,]+/)\<close>: the pieces between the maximal runs of newlines and
  commas; a run at either end of the input leaves an empty piece there, and the empty
  input is one empty piece.
\<close>

definition isSeparator :: "char \<Rightarrow> bool" where
  "isSeparator c = (c = CHR 0x0A \<or> c = CHR '','')"

function splitPieces :: "string \<Rightarrow> string list" where
  "splitPieces [] = [[]]"
| "splitPieces (c # cs) =
     (if isSeparator c then [] # splitPieces (dropWhile isSeparator cs)
      else (case splitPieces cs of
              [] \<Rightarrow> [[c]]
            | piece # pieces \<Rightarrow> (c # piece) # pieces))"
  by pat_completeness auto
termination
  by (relation "measure length") (auto simp: less_Suc_eq_le length_dropWhile_le)

text \<open>\<^verbatim>\<open>parseUrls\<close>: \<^verbatim>\<open>.map(normalizeUrl).filter((u) => u !== null)\<close>.\<close>

definition parseUrls :: "string \<Rightarrow> string list" where
  "parseUrls input =
     map the (filter (\<lambda>u. u \<noteq> None) (map normalizeUrl (splitPieces input)))"

section \<open>Signals (src/lib/checker.ts, lines 27-35)\<close>

definition NEW_ACCOUNT_REDIRECT_PATTERNS :: "string list" where
  "NEW_ACCOUNT_REDIRECT_PATTERNS =
     [''shopify.com/authentication'', ''/auth/login'', ''accounts.shopify.com'']"

definition isNewAccountRedirect :: "string \<Rightarrow> bool" where
  "isNewAccountRedirect u = list_ex (\<lambda>p. includes_str u p) NEW_ACCOUNT_REDIRECT_PATTERNS"

section \<open>Body classifier (src/lib/checker.ts, lines 37-114)\<close>

definition newAccountSignals :: "string list" where
  "newAccountSignals =
     [''shopify.com/authentication'', ''accounts.shopify.com'', ''init-customer-accounts'',
      ''initCustomerAccounts'', ''init-shop-for-new-customer-accounts'', ''shopify-login'',
      ''SignInWithShop'']"

definition legacySignals :: "string list" where
  \<open>legacySignals =
     [''customer[password]'', ''customer_login'', ''name="customer[email]"'',
      ''action="/account/login"'', ''action="/account"'']\<close>

text \<open>The pattern of the password input, \<^verbatim>\<open>type="password"\<close>.\<close>

definition passwordInput :: string where
  \<open>passwordInput = ''type="password"''\<close>

definition hasNewSignal :: "string \<Rightarrow> bool" where
  "hasNewSignal body = list_ex (\<lambda>signal. includes_str body signal) newAccountSignals"

definition hasLegacySignal :: "string \<Rightarrow> bool" where
  "hasLegacySignal body = list_ex (\<lambda>signal. includes_str body signal) legacySignals"

definition hasPasswordField :: "string \<Rightarrow> bool" where
  "hasPasswordField body = (includes_str body passwordInput \<and> includes_str body ''customer'')"

definition classifyFromBody :: "string \<Rightarrow> string \<Rightarrow> nat \<Rightarrow> CheckResult" where
  "classifyFromBody storeUrl body st =
     (if hasNewSignal body \<and> \<not> hasPasswordField body then
        \<lparr>url = storeUrl, type = New, status = Some st, redirect = None,
         note_field = None, error = None\<rparr>
      else if hasPasswordField body \<and> hasLegacySignal body then
        \<lparr>url = storeUrl, type = Legacy, status = Some st, redirect = None,
         note_field = None, error = None\<rparr>
      else if hasNewSignal body then
        \<lparr>url = storeUrl, type = New, status = Some st, redirect = None,
         note_field = None, error = None\<rparr>
      else if hasPasswordField body then
        \<lparr>url = storeUrl, type = Legacy, status = Some st, redirect = None,
         note_field = None, error = None\<rparr>
      else if includes_str body ''password-page'' \<or> includes_str body ''storefront-password'' then
        \<lparr>url = storeUrl, type = PasswordProtected, status = Some st, redirect = None,
         note_field = Some ''Store is password-protected (not yet live)'', error = None\<rparr>
      else if \<not> includes_str body ''Shopify'' \<and> \<not> includes_str body ''shopify'' then
        \<lparr>url = storeUrl, type = NotShopify, status = Some st, redirect = None,
         note_field = Some ''Does not appear to be a Shopify store'', error = None\<rparr>
      else
        \<lparr>url = storeUrl, type = Unknown, status = Some st, redirect = None,
         note_field = Some ''Could not determine account type from page content'',
         error = None\<rparr>)"

section \<open>The platform: HTTP transport and URL parser\<close>

text \<open>
  A value thrown inside the probe: an instance of \<^verbatim>\<open>Error\<close> with its message, or any
  other value, with what \<^verbatim>\<open>String(err)\<close> makes of it.
\<close>

datatype thrown = ErrorInstance string | OtherValue string

text \<open>\<^verbatim>\<open>err instanceof Error ? err.message : String(err)\<close>\<close>

fun errText :: "thrown \<Rightarrow> string" where
  "errText (ErrorInstance message) = message"
| "errText (OtherValue text) = text"

text \<open>
  What the probe reads of a \<^verbatim>\<open>Response\<close>: the status (an unsigned integer),
  \<^verbatim>\<open>headers.get(name)\<close> (\<open>None\<close> for \<^verbatim>\<open>null\<close>) and the outcome of \<^verbatim>\<open>await response.text()\<close>,
  which rejects or gives the body.
\<close>

record response =
  resp_status :: nat
  resp_headers :: "string \<Rightarrow> string option"
  resp_text :: "thrown + string"

text \<open>
  The platform is a parameter of the probe. \<open>fetch p i u\<close> is the outcome of the request
  number \<open>i\<close> (from 0) of one call of \<^verbatim>\<open>checkStore\<close>, a GET of \<open>u\<close> with
  \<^verbatim>\<open>redirect: "manual"\<close> and the fixed User-Agent: a rejection or a response. Indexing by
  \<open>i\<close> lets the transport answer the same URL differently each time.
  \<open>url_href p location base\<close> is \<^verbatim>\<open>new URL(location, base).href\<close> and \<open>url_hostname p u\<close>
  is \<^verbatim>\<open>new URL(u).hostname\<close>; the constructor throws on what it cannot parse.
\<close>

record platform =
  fetch :: "nat \<Rightarrow> string \<Rightarrow> thrown + response"
  url_href :: "string \<Rightarrow> string \<Rightarrow> thrown + string"
  url_hostname :: "string \<Rightarrow> thrown + string"

section \<open>The probe (src/lib/checker.ts, lines 116-222)\<close>

definition maxRedirects :: nat where
  "maxRedirects = 6"

text \<open>\<^verbatim>\<open>response.headers.get(name) || ""\<close>\<close>

definition headerOrEmpty :: "response \<Rightarrow> string \<Rightarrow> string" where
  "headerOrEmpty response name = (case resp_headers response name of None \<Rightarrow> [] | Some v \<Rightarrow> v)"

text \<open>
  Lines 151-162, the 406 block: \<open>Some\<close> of the result it returns, \<open>None\<close> when control
  falls through it.
\<close>

definition customDomain406 ::
  "platform \<Rightarrow> string \<Rightarrow> string \<Rightarrow> string \<Rightarrow> nat \<Rightarrow> thrown + CheckResult option" where
  "customDomain406 p storeUrl loginUrl currentUrl lastStatus =
     (if lastStatus = 406 \<and> currentUrl \<noteq> loginUrl then
        (case url_hostname p currentUrl of
           Inl err \<Rightarrow> Inl err
         | Inr redirectHost \<Rightarrow>
             (case url_hostname p storeUrl of
                Inl err \<Rightarrow> Inl err
              | Inr storeHost \<Rightarrow>
                  if redirectHost \<noteq> storeHost then
                    Inr (Some \<lparr>url = storeUrl, type = New, status = Some lastStatus,
                               redirect = None,
                               note_field = Some (''Redirected to custom account domain: '' @ redirectHost),
                               error = None\<rparr>)
                  else Inr None))
      else Inr None)"

text \<open>Lines 164-206: the status 200, the status 404 and every other status.\<close>

definition finalStatus :: "string \<Rightarrow> string \<Rightarrow> response \<Rightarrow> thrown + CheckResult" where
  "finalStatus storeUrl currentUrl response =
     (let lastStatus = resp_status response in
      if lastStatus = 200 then
        (let poweredBy = headerOrEmpty response ''x-powered-by'';
             shopId = headerOrEmpty response ''x-shopid'';
             serverTiming = headerOrEmpty response ''server-timing'';
             isShopify = (includes_str poweredBy ''Shopify'' \<or> shopId \<noteq> [] \<or>
                          includes_str serverTiming ''shopify'' \<or>
                          includes_str serverTiming ''pageType'')
         in case resp_text response of
              Inl err \<Rightarrow> Inl err
            | Inr body \<Rightarrow>
                if \<not> isShopify \<and> \<not> includes_str body ''Shopify'' \<and> \<not> includes_str body ''myshopify'' then
                  Inr \<lparr>url = storeUrl, type = NotShopify, status = Some lastStatus,
                       redirect = None,
                       note_field = Some ''Does not appear to be a Shopify store'',
                       error = None\<rparr>
                else Inr (classifyFromBody storeUrl body lastStatus))
      else if lastStatus = 404 then
        Inr \<lparr>url = storeUrl, type = NotShopify, status = Some lastStatus, redirect = None,
             note_field = Some (''No /account/login page found '' @ [CHR 0xE2, CHR 0x80, CHR 0x94] @
                                '' likely not a Shopify store''),
             error = None\<rparr>
      else
        Inr \<lparr>url = storeUrl, type = Unknown, status = Some lastStatus, redirect = None,
             note_field = Some (''Unexpected status '' @ showNat lastStatus @ '' at '' @ currentUrl),
             error = None\<rparr>)"

text \<open>
  What one pass of the loop body (lines 132-206) does with the response it received:
  it throws, it goes on to the next pass with a new current URL (\<^verbatim>\<open>continue\<close>), or it
  returns a result.
\<close>

datatype control = Continue string | Return CheckResult

definition iteration ::
  "platform \<Rightarrow> string \<Rightarrow> string \<Rightarrow> string \<Rightarrow> response \<Rightarrow> thrown + control" where
  "iteration p storeUrl loginUrl currentUrl response =
     (let lastStatus = resp_status response;
          location = headerOrEmpty response ''location''
      in
      if location \<noteq> [] \<and> isNewAccountRedirect location then
        Inr (Return \<lparr>url = storeUrl, type = New, status = Some lastStatus,
                     redirect = Some location, note_field = None, error = None\<rparr>)
      else if 300 \<le> lastStatus \<and> lastStatus < 400 \<and> location \<noteq> [] then
        (if startsWith location ''http'' then Inr (Continue location)
         else (case url_href p location currentUrl of
                 Inl err \<Rightarrow> Inl err
               | Inr href \<Rightarrow> Inr (Continue href)))
      else
        (case customDomain406 p storeUrl loginUrl currentUrl lastStatus of
           Inl err \<Rightarrow> Inl err
         | Inr (Some result) \<Rightarrow> Inr (Return result)
         | Inr None \<Rightarrow>
             (case finalStatus storeUrl currentUrl response of
                Inl err \<Rightarrow> Inl err
              | Inr result \<Rightarrow> Inr (Return result))))"

text \<open>
  The \<^verbatim>\<open>for\<close> loop from the pass \<open>i\<close> on, with the variables \<^verbatim>\<open>currentUrl\<close> and
  \<^verbatim>\<open>lastStatus\<close>. It gives what the body of the \<^verbatim>\<open>try\<close> block comes to (\<open>Inl\<close> the value
  thrown, \<open>Inr\<close> the result returned) and the URLs it requested, in order.
\<close>

function loop ::
  "platform \<Rightarrow> string \<Rightarrow> string \<Rightarrow> nat \<Rightarrow> string \<Rightarrow> nat \<Rightarrow> (thrown + CheckResult) \<times> string list" where
  "loop p storeUrl loginUrl i currentUrl lastStatus =
     (if i < maxRedirects then
        (case fetch p i currentUrl of
           Inl err \<Rightarrow> (Inl err, [currentUrl])
         | Inr response \<Rightarrow>
             (case iteration p storeUrl loginUrl currentUrl response of
                Inl err \<Rightarrow> (Inl err, [currentUrl])
              | Inr (Return result) \<Rightarrow> (Inr result, [currentUrl])
              | Inr (Continue nextUrl) \<Rightarrow>
                  (case loop p storeUrl loginUrl (i + 1) nextUrl (resp_status response) of
                     (outcome, requested) \<Rightarrow> (outcome, currentUrl # requested))))
      else
        (Inr \<lparr>url = storeUrl, type = Unknown, status = Some lastStatus, redirect = None,
              note_field = Some ''Too many redirects'', error = None\<rparr>, []))"
  by pat_completeness auto
termination
  by (relation "measure (\<lambda>(p, storeUrl, loginUrl, i, currentUrl, lastStatus). maxRedirects - i)")
     auto

declare loop.simps [simp del]

text \<open>The body of the \<^verbatim>\<open>try\<close> block, from \<^verbatim>\<open>currentUrl = loginUrl\<close> and \<^verbatim>\<open>lastStatus = 0\<close>.\<close>

definition probe :: "platform \<Rightarrow> string \<Rightarrow> (thrown + CheckResult) \<times> string list" where
  "probe p storeUrl =
     (let loginUrl = storeUrl @ ''/account/login'' in loop p storeUrl loginUrl 0 loginUrl 0)"

text \<open>
  \<^verbatim>\<open>checkStore\<close>: the \<^verbatim>\<open>catch\<close> clause turns a thrown value into a result. The copy of this
  function in src/check.js (lines 47-146) has the same loop; its \<^verbatim>\<open>catch\<close> clause reads
  \<^verbatim>\<open>err.message\<close> without the test, which is the same for every instance of \<^verbatim>\<open>Error\<close>,
  and \<^verbatim>\<open>fetch\<close>, \<^verbatim>\<open>response.text()\<close> and the \<^verbatim>\<open>URL\<close> constructor throw nothing else.
\<close>

definition checkStore :: "platform \<Rightarrow> string \<Rightarrow> CheckResult" where
  "checkStore p storeUrl =
     (case fst (probe p storeUrl) of
        Inr result \<Rightarrow> result
      | Inl err \<Rightarrow>
          \<lparr>url = storeUrl, type = Error, status = None, redirect = None, note_field = None,
           error = Some (errText err)\<rparr>)"

text \<open>The URLs one call of \<^verbatim>\<open>checkStore\<close> sends a GET to, in order.\<close>

definition requests :: "platform \<Rightarrow> string \<Rightarrow> string list" where
  "requests p storeUrl = snd (probe p storeUrl)"

section \<open>Batch endpoint (src/app/api/check/route.ts)\<close>

text \<open>
  The \<^verbatim>\<open>urls\<close> member of the request body: an array of strings, or anything else
  (absent, \<^verbatim>\<open>null\<close>, not an array).
\<close>

datatype rawUrls = NotAnArray | StringArray "string list"

text \<open>The response: status 400 with an error message, or the stream of results.\<close>

datatype postResponse = BadRequest string | Stream "CheckResult list"

definition CONCURRENCY :: nat where
  "CONCURRENCY = 5"

text \<open>
  The loop of \<^verbatim>\<open>start(controller)\<close> from the index \<open>i\<close> on: the results enqueued, in
  order. The calls of one batch run concurrently, so each call has a platform of its
  own: \<open>ps k\<close> is what the call for \<open>urls ! k\<close> meets.
\<close>

function enqueued :: "(nat \<Rightarrow> platform) \<Rightarrow> string list \<Rightarrow> nat \<Rightarrow> CheckResult list" where
  "enqueued ps urls i =
     (if i < length urls then
        (let batch = take CONCURRENCY (drop i urls);
             results = map (\<lambda>(k, u). checkStore (ps k) u) (zip [i ..< i + length batch] batch)
         in results @ enqueued ps urls (i + CONCURRENCY))
      else [])"
  by pat_completeness auto
termination
  by (relation "measure (\<lambda>(ps, urls, i). length urls - i)") (auto simp: CONCURRENCY_def)

declare enqueued.simps [simp del]

definition POST :: "(nat \<Rightarrow> platform) \<Rightarrow> rawUrls \<Rightarrow> postResponse" where
  "POST ps raw =
     (case raw of
        NotAnArray \<Rightarrow> BadRequest ''No URLs provided''
      | StringArray rawList \<Rightarrow>
          if rawList = [] then BadRequest ''No URLs provided''
          else
            (let urls = take 100 (concat (map parseUrls rawList)) in
             if urls = [] then BadRequest ''No valid URLs found''
             else Stream (enqueued ps urls 0)))"

section \<open>The specification's vocabulary\<close>

text \<open>The text \<open>s\<close> contains the text \<open>p\<close>: \<open>p\<close> stands somewhere inside \<open>s\<close>.\<close>

definition contains :: "string \<Rightarrow> string \<Rightarrow> bool" where
  "contains s p = (\<exists>before after. s = before @ p @ after)"

text \<open>
  The signal sets and the seven rules of the body classifier, in the words of the
  specification (section 4.3).
\<close>

definition bodyHasNewSignal :: "string \<Rightarrow> bool" where
  "bodyHasNewSignal body =
     (\<exists>signal \<in> {''shopify.com/authentication'', ''accounts.shopify.com'',
                  ''init-customer-accounts'', ''initCustomerAccounts'',
                  ''init-shop-for-new-customer-accounts'', ''shopify-login'',
                  ''SignInWithShop''}. contains body signal)"

definition bodyHasLegacySignal :: "string \<Rightarrow> bool" where
  \<open>bodyHasLegacySignal body =
     (\<exists>signal \<in> {''customer[password]'', ''customer_login'', ''name="customer[email]"'',
                  ''action="/account/login"'', ''action="/account"''}. contains body signal)\<close>

definition bodyHasPasswordField :: "string \<Rightarrow> bool" where
  \<open>bodyHasPasswordField body = (contains body ''type="password"'' \<and> contains body ''customer'')\<close>

definition bodyRules :: "string \<Rightarrow> AccountType" where
  "bodyRules body =
     (if bodyHasNewSignal body \<and> \<not> bodyHasPasswordField body then New
      else if bodyHasPasswordField body \<and> bodyHasLegacySignal body then Legacy
      else if bodyHasNewSignal body then New
      else if bodyHasPasswordField body then Legacy
      else if contains body ''password-page'' \<or> contains body ''storefront-password''
        then PasswordProtected
      else if \<not> contains body ''Shopify'' \<and> \<not> contains body ''shopify'' then NotShopify
      else Unknown)"

text \<open>Three shorthands: two results of the probe, and the login URL of a store.\<close>

definition tooManyRedirects :: "string \<Rightarrow> nat \<Rightarrow> CheckResult" where
  "tooManyRedirects storeUrl lastStatus =
     \<lparr>url = storeUrl, type = Unknown, status = Some lastStatus, redirect = None,
      note_field = Some ''Too many redirects'', error = None\<rparr>"

text \<open>
  What the loop does on one pass, as a relation between the request \<open>j\<close> to \<open>u\<close>, what the
  \<^verbatim>\<open>try\<close> block comes to, whether the request is the last one, and the request after it.
\<close>

definition passSpec ::
  "platform \<Rightarrow> string \<Rightarrow> string \<Rightarrow> nat \<Rightarrow> string \<Rightarrow> thrown + CheckResult \<Rightarrow> bool \<Rightarrow> string option \<Rightarrow> bool" where
  "passSpec p s l j u out isLast following =
     (case fetch p j u of
        Inl e \<Rightarrow> out = Inl e \<and> isLast
      | Inr r \<Rightarrow>
          (case iteration p s l u r of
             Inl e \<Rightarrow> out = Inl e \<and> isLast
           | Inr (Return res) \<Rightarrow> out = Inr res \<and> isLast
           | Inr (Continue u') \<Rightarrow>
               (case following of
                  Some n \<Rightarrow> n = u'
                | None \<Rightarrow> Suc j = maxRedirects \<and> out = Inr (tooManyRedirects s (resp_status r)))))"

definition errorResult :: "string \<Rightarrow> thrown \<Rightarrow> CheckResult" where
  "errorResult storeUrl err =
     \<lparr>url = storeUrl, type = Error, status = None, redirect = None, note_field = None,
      error = Some (errText err)\<rparr>"

definition loginUrlOf :: "string \<Rightarrow> string" where
  "loginUrlOf storeUrl = storeUrl @ ''/account/login''"

text \<open>A redirect target that signals new customer accounts (specification, section 4.2).\<close>

definition signalTarget :: "string \<Rightarrow> bool" where
  "signalTarget location =
     (contains location ''shopify.com/authentication'' \<or> contains location ''/auth/login'' \<or>
      contains location ''accounts.shopify.com'')"

definition hasLocationSignal :: "response \<Rightarrow> bool" where
  "hasLocationSignal r =
     (case resp_headers r ''location'' of None \<Rightarrow> False | Some location \<Rightarrow> signalTarget location)"

text \<open>
  The request \<open>i\<close> to \<open>currentUrl\<close> is answered by a redirect that the loop follows: a status
  in [300, 400) and a \<^verbatim>\<open>Location\<close> that is not empty, signals nothing, and is absolute or
  resolves against the current URL.
\<close>

definition followsRedirect :: "platform \<Rightarrow> nat \<Rightarrow> string \<Rightarrow> bool" where
  "followsRedirect p i currentUrl =
     (case fetch p i currentUrl of
        Inl err \<Rightarrow> False
      | Inr r \<Rightarrow>
          300 \<le> resp_status r \<and> resp_status r < 400 \<and>
          (case resp_headers r ''location'' of
             None \<Rightarrow> False
           | Some location \<Rightarrow>
               location \<noteq> [] \<and> \<not> signalTarget location \<and>
               (startsWith location ''http'' \<or>
                (case url_href p location currentUrl of Inl err \<Rightarrow> False | Inr href \<Rightarrow> True))))"

text \<open>The same platform, but every response of status 404 has the body \<open>bodies i u\<close>.\<close>

definition replaceBodies404 :: "(nat \<Rightarrow> string \<Rightarrow> thrown + string) \<Rightarrow> platform \<Rightarrow> platform" where
  "replaceBodies404 bodies p =
     p\<lparr>fetch := \<lambda>i u. case fetch p i u of
                        Inl err \<Rightarrow> Inl err
                      | Inr r \<Rightarrow> Inr (if resp_status r = 404 then r\<lparr>resp_text := bodies i u\<rparr> else r)\<rparr>"

text \<open>
  The normalise-and-split of the specification (sections 4.1 and 6): the pieces between
  newlines and commas, trimmed; the empty ones and the comments dropped; \<open>https://\<close> put
  before what does not start with \<open>http\<close>; trailing slashes stripped.
\<close>

definition normalizeAndSplit :: "string \<Rightarrow> string list" where
  "normalizeAndSplit rawText =
     map (\<lambda>piece. stripTrailingSlashes
                    (if startsWith (trim piece) ''http'' then trim piece
                     else ''https://'' @ trim piece))
         (filter (\<lambda>piece. trim piece \<noteq> [] \<and> \<not> startsWith (trim piece) ''#'')
                 (splitPieces rawText))"

text \<open>The pieces written one after the other with the separator \<open>sep\<close> between them.\<close>

fun joinWith :: "char \<Rightarrow> string list \<Rightarrow> string" where
  "joinWith sep [] = []"
| "joinWith sep [piece] = piece"
| "joinWith sep (piece # other # pieces) = piece @ sep # joinWith sep (other # pieces)"

text \<open>Each piece normalised, the dropped ones left out.\<close>

definition normalizeEach :: "string list \<Rightarrow> string list" where
  "normalizeEach pieces = map the (filter (\<lambda>u. u \<noteq> None) (map normalizeUrl pieces))"

text \<open>
  The lines of a text, the pieces between its newlines; a piece that is blank or a comment;
  a text all of whose lines are blank or comments.
\<close>

fun splitLines :: "string \<Rightarrow> string list" where
  "splitLines [] = [[]]"
| "splitLines (c # cs) =
     (if c = CHR 0x0A then [] # splitLines cs
      else (case splitLines cs of
              [] \<Rightarrow> [[c]]
            | line # lines \<Rightarrow> (c # line) # lines))"

definition blankOrComment :: "string \<Rightarrow> bool" where
  "blankOrComment piece = (trim piece = [] \<or> startsWith (trim piece) ''#'')"

definition onlyBlankAndCommentLines :: "string \<Rightarrow> bool" where
  "onlyBlankAndCommentLines input = list_all blankOrComment (splitLines input)"

section \<open>Example inputs\<close>

definition bothSignalsBody :: string where
  \<open>bothSignalsBody = ''<form action="/account/login"><input type="password" name="customer[password]"><script src="init-customer-accounts.js">''\<close>

definition newWithPasswordBody :: string where
  \<open>newWithPasswordBody = ''<div id="customer"><input type="password"><shopify-login>''\<close>

text \<open>A toy URL parser for the examples: only \<open>https://host/path\<close> parses.\<close>

definition toyHostname :: "string \<Rightarrow> thrown + string" where
  "toyHostname u =
     (if startsWith u ''https://'' \<and> drop 8 u \<noteq> [] then Inr (takeWhile (\<lambda>c. c \<noteq> CHR ''/'') (drop 8 u))
      else Inl (ErrorInstance ''Invalid URL''))"

definition toyHref :: "string \<Rightarrow> string \<Rightarrow> thrown + string" where
  "toyHref location base =
     (case toyHostname base of
        Inl err \<Rightarrow> Inl err
      | Inr host \<Rightarrow>
          if startsWith location ''/'' \<and> \<not> startsWith location ''//'' then Inr (''https://'' @ host @ location)
          else Inl (ErrorInstance ''Invalid URL''))"

text \<open>A transport that answers the request number \<open>i\<close> with the entry \<open>i\<close> of a script.\<close>

definition scripted :: "(thrown + response) list \<Rightarrow> platform" where
  "scripted script =
     \<lparr>fetch = (\<lambda>i u. if i < length script then script ! i else Inl (ErrorInstance ''fetch failed'')),
      url_href = toyHref, url_hostname = toyHostname\<rparr>"

definition redirectTo :: "nat \<Rightarrow> string \<Rightarrow> thrown + response" where
  "redirectTo st location =
     Inr \<lparr>resp_status = st, resp_headers = [''location'' \<mapsto> location], resp_text = Inr []\<rparr>"

definition page :: "nat \<Rightarrow> string \<Rightarrow> thrown + response" where
  "page st body = Inr \<lparr>resp_status = st, resp_headers = Map.empty, resp_text = Inr body\<rparr>"

definition shop :: string where
  "shop = ''https://shop.example''"

definition signalRedirect :: platform where
  "signalRedirect = scripted [redirectTo 302 ''https://accounts.shopify.com/lookup'']"

definition signalOnNotFound :: platform where
  "signalOnNotFound = scripted [redirectTo 301 ''/account'', redirectTo 404 ''/auth/login'']"

definition endlessRedirect :: platform where
  "endlessRedirect =
     scripted [redirectTo 302 ''/a'', redirectTo 301 ''https://shop.example/b'', redirectTo 302 ''/c'',
               redirectTo 307 ''/d'', redirectTo 302 ''/e'', redirectTo 308 ''/f'']"

definition customDomain :: platform where
  "customDomain = scripted [redirectTo 302 ''https://account.brand.example/'', page 406 []]"

definition sameHost :: platform where
  "sameHost = scripted [redirectTo 302 ''/customer'', page 406 []]"

definition notAcceptable :: platform where
  "notAcceptable = scripted [page 406 []]"

definition notFound :: platform where
  "notFound = scripted [page 404 ''<html>Shopify customer_login SignInWithShop</html>'']"

definition unreachable :: platform where
  "unreachable = scripted []"

definition bodyLost :: platform where
  "bodyLost =
     scripted [Inr \<lparr>resp_status = 200, resp_headers = [''x-shopid'' \<mapsto> ''1''],
                    resp_text = Inl (ErrorInstance ''terminated'')\<rparr>]"

definition badRedirect :: platform where
  "badRedirect = scripted [redirectTo 302 ''//'']"

definition legacyStore :: platform where
  \<open>legacyStore =
     scripted [redirectTo 301 ''/account/login?return_url=%2Faccount'',
               page 200 ''<html>Shopify<form action="/account/login" id="customer_login"><input type="password" name="customer[password]"></form></html>'']\<close>

definition pastedLines :: "string list" where
  "pastedLines = ['' a.com/ '', ''# staging stores'', ''http://b.example//'', [], ''a.com'']"

definition commentsOnly :: string where
  "commentsOnly = ''# nothing here'' @ [CHR 0x0A, CHR 0x0A] @ ''   '' @ [CHR 0x0A] @ '' # nor here''"

definition commentWithComma :: string where
  "commentWithComma = ''# a.com, b.com''"

definition commentPieces :: string where
  "commentPieces = ''# old stores, #b.com'' @ [CHR 0x0A] @ '' , ,# c.com''"

section \<open>Substring tests\<close>

lemma startsWith_iff: "startsWith s p \<longleftrightarrow> (\<exists>after. s = p @ after)"
  unfolding startsWith_def
  by (metis append_eq_conv_conj append_take_drop_id)

lemma includes_str_iff: "includes_str s p \<longleftrightarrow> contains s p"
proof (induction s)
  case Nil
  show ?case by (auto simp: contains_def)
next
  case (Cons c cs)
  show ?case
  proof
    assume "includes_str (c # cs) p"
    then consider "startsWith (c # cs) p" | "contains cs p"
      using Cons.IH by auto
    then show "contains (c # cs) p"
    proof cases
      case 1
      then obtain after where "c # cs = [] @ p @ after"
        by (auto simp: startsWith_iff)
      then show ?thesis unfolding contains_def by blast
    next
      case 2
      then obtain before after where "cs = before @ p @ after"
        by (auto simp: contains_def)
      then have "c # cs = (c # before) @ p @ after" by simp
      then show ?thesis unfolding contains_def by blast
    qed
  next
    assume "contains (c # cs) p"
    then obtain before after where eq: "c # cs = before @ p @ after"
      by (auto simp: contains_def)
    show "includes_str (c # cs) p"
    proof (cases before)
      case Nil
      with eq have "startsWith (c # cs) p" by (auto simp: startsWith_iff)
      then show ?thesis by simp
    next
      case (Cons b bs)
      with eq have "cs = bs @ p @ after" by simp
      then have "contains cs p" unfolding contains_def by blast
      then show ?thesis using Cons.IH by simp
    qed
  qed
qed

lemma hasNewSignal_iff: "hasNewSignal body \<longleftrightarrow> bodyHasNewSignal body"
  by (simp add: hasNewSignal_def bodyHasNewSignal_def newAccountSignals_def includes_str_iff)

lemma hasLegacySignal_iff: "hasLegacySignal body \<longleftrightarrow> bodyHasLegacySignal body"
  by (simp add: hasLegacySignal_def bodyHasLegacySignal_def legacySignals_def includes_str_iff)

lemma hasPasswordField_iff: "hasPasswordField body \<longleftrightarrow> bodyHasPasswordField body"
  by (simp add: hasPasswordField_def bodyHasPasswordField_def passwordInput_def includes_str_iff)

lemma type_classifyFromBody:
  "type (classifyFromBody storeUrl body st) =
     (if hasNewSignal body \<and> \<not> hasPasswordField body then New
      else if hasPasswordField body \<and> hasLegacySignal body then Legacy
      else if hasNewSignal body then New
      else if hasPasswordField body then Legacy
      else if includes_str body ''password-page'' \<or> includes_str body ''storefront-password''
        then PasswordProtected
      else if \<not> includes_str body ''Shopify'' \<and> \<not> includes_str body ''shopify'' then NotShopify
      else Unknown)"
  by (simp add: classifyFromBody_def)

section \<open>The body classifier\<close>

text \<open>
  C2. \<^verbatim>\<open>classifyFromBody\<close> gives the type that the seven rules of the specification
  give, the first rule that matches deciding, with every test a case-sensitive
  substring test. In particular a body with a new-account signal, the password field and
  a legacy signal is legacy, and a body with a new-account signal and the password field
  but no legacy signal is new.
\<close>

theorem classifyFromBody_rules:
  "type (classifyFromBody storeUrl body st) = bodyRules body \<and>
   (bodyHasNewSignal body \<and> bodyHasPasswordField body \<and> bodyHasLegacySignal body \<longrightarrow>
      type (classifyFromBody storeUrl body st) = Legacy) \<and>
   (bodyHasNewSignal body \<and> bodyHasPasswordField body \<and> \<not> bodyHasLegacySignal body \<longrightarrow>
      type (classifyFromBody storeUrl body st) = New)"
proof -
  have "type (classifyFromBody storeUrl body st) = bodyRules body"
    unfolding type_classifyFromBody bodyRules_def
    by (simp only: hasNewSignal_iff hasLegacySignal_iff hasPasswordField_iff includes_str_iff)
  then show ?thesis
    by (simp add: bodyRules_def)
qed

theorem classifyFromBody_rules_witness:
  "bodyHasNewSignal bothSignalsBody \<and> bodyHasPasswordField bothSignalsBody \<and>
   bodyHasLegacySignal bothSignalsBody \<and>
   type (classifyFromBody ''https://shop.example'' bothSignalsBody 200) = Legacy \<and>
   bodyHasNewSignal newWithPasswordBody \<and> bodyHasPasswordField newWithPasswordBody \<and>
   \<not> bodyHasLegacySignal newWithPasswordBody \<and>
   type (classifyFromBody ''https://shop.example'' newWithPasswordBody 200) = New"
proof -
  have "hasNewSignal bothSignalsBody" "hasPasswordField bothSignalsBody"
    "hasLegacySignal bothSignalsBody"
    by code_simp+
  then have a: "bodyHasNewSignal bothSignalsBody" "bodyHasPasswordField bothSignalsBody"
    "bodyHasLegacySignal bothSignalsBody"
    by (simp_all add: hasNewSignal_iff hasLegacySignal_iff hasPasswordField_iff)
  have "hasNewSignal newWithPasswordBody" "hasPasswordField newWithPasswordBody"
    "\<not> hasLegacySignal newWithPasswordBody"
    by code_simp+
  then have b: "bodyHasNewSignal newWithPasswordBody" "bodyHasPasswordField newWithPasswordBody"
    "\<not> bodyHasLegacySignal newWithPasswordBody"
    by (simp_all add: hasNewSignal_iff hasLegacySignal_iff hasPasswordField_iff)
  show ?thesis
    using a b classifyFromBody_rules [of "''https://shop.example''" bothSignalsBody 200]
      classifyFromBody_rules [of "''https://shop.example''" newWithPasswordBody 200]
    by blast
qed

section \<open>The loop, pass by pass\<close>

lemma loop_unfold:
  "loop p s l i cur ls =
     (if i < maxRedirects then
        (case fetch p i cur of
           Inl err \<Rightarrow> (Inl err, [cur])
         | Inr response \<Rightarrow>
             (case iteration p s l cur response of
                Inl err \<Rightarrow> (Inl err, [cur])
              | Inr (Return result) \<Rightarrow> (Inr result, [cur])
              | Inr (Continue nextUrl) \<Rightarrow>
                  (fst (loop p s l (Suc i) nextUrl (resp_status response)),
                   cur # snd (loop p s l (Suc i) nextUrl (resp_status response)))))
      else (Inr (tooManyRedirects s ls), []))"
  by (subst loop.simps)
     (simp add: tooManyRedirects_def split: sum.splits control.splits prod.splits)

lemma loop_exhausted: "maxRedirects \<le> i \<Longrightarrow> loop p s l i cur ls = (Inr (tooManyRedirects s ls), [])"
  by (subst loop_unfold) simp

lemma loop_requests_hd:
  "i < maxRedirects \<Longrightarrow> \<exists>rest. snd (loop p s l i cur ls) = cur # rest"
  by (subst loop_unfold) (simp split: sum.splits control.splits)

lemma loop_requests_length: "length (snd (loop p s l i cur ls)) \<le> maxRedirects - i"
proof (induction p s l i cur ls rule: loop.induct)
  case (1 p s l i cur ls)
  show ?case
  proof (cases "i < maxRedirects")
    case False
    then show ?thesis by (simp add: loop_exhausted)
  next
    case True
    show ?thesis
    proof (cases "fetch p i cur")
      case (Inl e)
      with True show ?thesis by (subst loop_unfold) simp
    next
      case (Inr r)
      show ?thesis
      proof (cases "iteration p s l cur r")
        case (Inl e)
        with True Inr show ?thesis by (subst loop_unfold) simp
      next
        case it: (Inr c)
        show ?thesis
        proof (cases c)
          case (Return res)
          with True Inr it show ?thesis by (subst loop_unfold) simp
        next
          case (Continue u)
          have "length (snd (loop p s l (i + 1) u (resp_status r))) \<le> maxRedirects - (i + 1)"
            using "1.IH" [OF True Inr it Continue] .
          with True Inr it Continue show ?thesis by (subst loop_unfold) simp
        qed
      qed
    qed
  qed
qed

lemma loop_pass:
  assumes "loop p s l i cur ls = (out, tr)" and "k < length tr"
  shows "passSpec p s l (i + k) (tr ! k) out (length tr = Suc k)
           (if Suc k < length tr then Some (tr ! Suc k) else None)"
  using assms
proof (induction p s l i cur ls arbitrary: k out tr rule: loop.induct)
  case (1 p s l i cur ls)
  note run = \<open>loop p s l i cur ls = (out, tr)\<close>
  show ?case
  proof (cases "i < maxRedirects")
    case False
    with "1.prems" show ?thesis by (simp add: loop_exhausted)
  next
    case True
    show ?thesis
    proof (cases "fetch p i cur")
      case (Inl e)
      with True run have "out = Inl e" "tr = [cur]"
        by (simp_all add: loop_unfold)
      with "1.prems" Inl show ?thesis by (simp add: passSpec_def)
    next
      case (Inr r)
      show ?thesis
      proof (cases "iteration p s l cur r")
        case (Inl e)
        with True Inr run have "out = Inl e" "tr = [cur]"
          by (simp_all add: loop_unfold)
        with "1.prems" Inl Inr show ?thesis by (simp add: passSpec_def)
      next
        case it: (Inr c)
        show ?thesis
        proof (cases c)
          case (Return res)
          with True Inr it run have "out = Inr res" "tr = [cur]"
            by (simp_all add: loop_unfold)
          with "1.prems" Inr it Return show ?thesis by (simp add: passSpec_def)
        next
          case (Continue u)
          obtain out' tr' where nx: "loop p s l (i + 1) u (resp_status r) = (out', tr')"
            by (cases "loop p s l (i + 1) u (resp_status r)")
          with True Inr it Continue run have eq: "out = out'" "tr = cur # tr'"
            by (simp_all add: loop_unfold)
          show ?thesis
          proof (cases k)
            case 0
            show ?thesis
            proof (cases "Suc i < maxRedirects")
              case True
              then obtain rest where "tr' = u # rest"
                using loop_requests_hd [of "Suc i" p s l u "resp_status r"] nx by auto
              with eq 0 Inr it Continue show ?thesis by (simp add: passSpec_def)
            next
              case False
              then have "out' = Inr (tooManyRedirects s (resp_status r))" "tr' = []"
                using nx by (simp_all add: loop_exhausted)
              with eq 0 Inr it Continue False \<open>i < maxRedirects\<close> show ?thesis
                by (simp add: passSpec_def)
            qed
          next
            case (Suc k')
            with "1.prems" eq have "k' < length tr'" by simp
            from "1.IH" [OF True Inr it Continue nx this]
            show ?thesis
              by (cases "Suc k' < length tr'") (simp_all add: eq Suc)
          qed
        qed
      qed
    qed
  qed
qed

lemma probe_loop:
  "probe p u = loop p u (loginUrlOf u) 0 (loginUrlOf u) 0"
  by (simp add: probe_def loginUrlOf_def Let_def)

lemma checkStore_thrown: "fst (probe p u) = Inl e \<Longrightarrow> checkStore p u = errorResult u e"
  by (simp add: checkStore_def errorResult_def)

lemma checkStore_returned: "fst (probe p u) = Inr res \<Longrightarrow> checkStore p u = res"
  by (simp add: checkStore_def)

lemma requests_length: "length (requests p u) \<le> maxRedirects"
  using loop_requests_length [of p u "loginUrlOf u" 0 "loginUrlOf u" 0]
  by (simp add: requests_def probe_loop)

lemma requests_first: "\<exists>rest. requests p u = loginUrlOf u # rest"
  using loop_requests_hd [of 0 p u "loginUrlOf u" "loginUrlOf u" 0]
  by (simp add: requests_def probe_loop maxRedirects_def)

lemma probe_pass:
  assumes "k < length (requests p u)"
  shows "passSpec p u (loginUrlOf u) k (requests p u ! k) (fst (probe p u))
           (length (requests p u) = Suc k)
           (if Suc k < length (requests p u) then Some (requests p u ! Suc k) else None)"
proof -
  have "loop p u (loginUrlOf u) 0 (loginUrlOf u) 0 = (fst (probe p u), requests p u)"
    by (simp add: requests_def probe_loop)
  from loop_pass [OF this assms] show ?thesis by simp
qed

lemma pass_fetch_throws:
  assumes "k < length (requests p u)" and "fetch p k (requests p u ! k) = Inl e"
  shows "checkStore p u = errorResult u e \<and> length (requests p u) = Suc k"
  using probe_pass [OF assms(1)] assms(2)
  by (simp add: passSpec_def checkStore_thrown)

lemma pass_iteration_throws:
  assumes "k < length (requests p u)" and "fetch p k (requests p u ! k) = Inr r"
    and "iteration p u (loginUrlOf u) (requests p u ! k) r = Inl e"
  shows "checkStore p u = errorResult u e \<and> length (requests p u) = Suc k"
  using probe_pass [OF assms(1)] assms(2,3)
  by (simp add: passSpec_def checkStore_thrown)

lemma pass_returns:
  assumes "k < length (requests p u)" and "fetch p k (requests p u ! k) = Inr r"
    and "iteration p u (loginUrlOf u) (requests p u ! k) r = Inr (Return res)"
  shows "checkStore p u = res \<and> length (requests p u) = Suc k"
  using probe_pass [OF assms(1)] assms(2,3)
  by (simp add: passSpec_def checkStore_returned)

lemma pass_continues:
  assumes "k < length (requests p u)" and "fetch p k (requests p u ! k) = Inr r"
    and "iteration p u (loginUrlOf u) (requests p u ! k) r = Inr (Continue u')"
  shows "(Suc k < length (requests p u) \<and> requests p u ! Suc k = u') \<or>
         (length (requests p u) = maxRedirects \<and> Suc k = maxRedirects \<and>
          checkStore p u = tooManyRedirects u (resp_status r))"
proof (cases "Suc k < length (requests p u)")
  case True
  with probe_pass [OF assms(1)] assms(2,3) show ?thesis
    by (simp add: passSpec_def)
next
  case False
  with assms(1) have "length (requests p u) = Suc k" by simp
  with False probe_pass [OF assms(1)] assms(2,3) show ?thesis
    by (simp add: passSpec_def checkStore_returned)
qed

subsection \<open>One pass\<close>

lemma isNewAccountRedirect_empty: "\<not> isNewAccountRedirect []"
  by (simp add: isNewAccountRedirect_def NEW_ACCOUNT_REDIRECT_PATTERNS_def)

lemma iteration_signal:
  assumes "resp_headers r ''location'' = Some loc" and "isNewAccountRedirect loc"
  shows "iteration p s l cur r =
           Inr (Return \<lparr>url = s, type = New, status = Some (resp_status r),
                        redirect = Some loc, note_field = None, error = None\<rparr>)"
proof -
  from assms(2) have "loc \<noteq> []"
    using isNewAccountRedirect_empty by auto
  with assms show ?thesis
    by (simp add: iteration_def headerOrEmpty_def)
qed

lemma iteration_no_signal:
  assumes "\<not> isNewAccountRedirect (headerOrEmpty r ''location'')"
    and "\<not> (300 \<le> resp_status r \<and> resp_status r < 400)"
  shows "iteration p s l cur r =
           (case customDomain406 p s l cur (resp_status r) of
              Inl err \<Rightarrow> Inl err
            | Inr (Some result) \<Rightarrow> Inr (Return result)
            | Inr None \<Rightarrow>
                (case finalStatus s cur r of
                   Inl err \<Rightarrow> Inl err
                 | Inr result \<Rightarrow> Inr (Return result)))"
  using assms by (auto simp add: iteration_def Let_def)

lemma iteration_404:
  assumes "resp_status r = 404" and "\<not> isNewAccountRedirect (headerOrEmpty r ''location'')"
  shows "iteration p s l cur r =
           Inr (Return \<lparr>url = s, type = NotShopify, status = Some 404, redirect = None,
                        note_field = Some (''No /account/login page found '' @
                                           [CHR 0xE2, CHR 0x80, CHR 0x94] @
                                           '' likely not a Shopify store''),
                        error = None\<rparr>)"
  using assms
  by (simp add: iteration_no_signal customDomain406_def finalStatus_def)

lemma showNat_406: "showNat 406 = ''406''"
  by (simp add: showNat.simps)

lemma iteration_406_custom_domain:
  assumes "resp_status r = 406" and "\<not> isNewAccountRedirect (headerOrEmpty r ''location'')"
    and "cur \<noteq> l" and "url_hostname p cur = Inr redirectHost"
    and "url_hostname p s = Inr storeHost" and "redirectHost \<noteq> storeHost"
  shows "iteration p s l cur r =
           Inr (Return \<lparr>url = s, type = New, status = Some 406, redirect = None,
                        note_field = Some (''Redirected to custom account domain: '' @ redirectHost),
                        error = None\<rparr>)"
  using assms
  by (simp add: iteration_no_signal customDomain406_def)

lemma iteration_406_unknown:
  assumes "resp_status r = 406" and "\<not> isNewAccountRedirect (headerOrEmpty r ''location'')"
    and "cur = l \<or> (\<exists>host. url_hostname p cur = Inr host \<and> url_hostname p s = Inr host)"
  shows "iteration p s l cur r =
           Inr (Return \<lparr>url = s, type = Unknown, status = Some 406, redirect = None,
                        note_field = Some (''Unexpected status 406 at '' @ cur),
                        error = None\<rparr>)"
  using assms
  by (auto simp add: iteration_no_signal customDomain406_def finalStatus_def showNat_406)

subsection \<open>The Location signal\<close>

lemma isNewAccountRedirect_iff: "isNewAccountRedirect location \<longleftrightarrow> signalTarget location"
  by (auto simp add: isNewAccountRedirect_def NEW_ACCOUNT_REDIRECT_PATTERNS_def signalTarget_def
      includes_str_iff)

lemma location_signal_iff:
  "isNewAccountRedirect (headerOrEmpty r ''location'') \<longleftrightarrow> hasLocationSignal r"
  by (simp add: hasLocationSignal_def headerOrEmpty_def isNewAccountRedirect_iff [symmetric]
      isNewAccountRedirect_empty split: option.splits)

text \<open>
  C3. When the response to any request of the loop has a \<^verbatim>\<open>Location\<close> header that contains
  one of the three signal substrings, \<^verbatim>\<open>checkStore\<close> returns the type new with the status of
  that response and the raw header value as the redirect, and that request is the last:
  whatever the status code is.
\<close>

theorem location_signal_new:
  assumes "k < length (requests p storeUrl)"
    and "fetch p k (requests p storeUrl ! k) = Inr r"
    and "resp_headers r ''location'' = Some location"
    and "contains location ''shopify.com/authentication'' \<or> contains location ''/auth/login'' \<or>
         contains location ''accounts.shopify.com''"
  shows "checkStore p storeUrl =
           \<lparr>url = storeUrl, type = New, status = Some (resp_status r),
            redirect = Some location, note_field = None, error = None\<rparr> \<and>
         length (requests p storeUrl) = Suc k"
proof -
  from assms(4) have "isNewAccountRedirect location"
    by (simp add: isNewAccountRedirect_iff signalTarget_def)
  from pass_returns [OF assms(1,2) iteration_signal [OF assms(3) this]]
  show ?thesis .
qed

theorem location_signal_new_witness:
  "checkStore signalRedirect shop =
     \<lparr>url = shop, type = New, status = Some 302,
      redirect = Some ''https://accounts.shopify.com/lookup'', note_field = None, error = None\<rparr> \<and>
   length (requests signalRedirect shop) = 1 \<and>
   checkStore signalOnNotFound shop =
     \<lparr>url = shop, type = New, status = Some 404,
      redirect = Some ''/auth/login'', note_field = None, error = None\<rparr> \<and>
   length (requests signalOnNotFound shop) = 2"
proof -
  have a: "requests signalRedirect shop = [''https://shop.example/account/login'']"
    by code_simp
  have b: "fetch signalRedirect 0 ''https://shop.example/account/login'' =
             Inr \<lparr>resp_status = 302,
                  resp_headers = [''location'' \<mapsto> ''https://accounts.shopify.com/lookup''],
                  resp_text = Inr []\<rparr>"
    by (simp add: signalRedirect_def scripted_def redirectTo_def)
  have c: "includes_str ''https://accounts.shopify.com/lookup'' ''accounts.shopify.com''"
    by code_simp
  have a': "requests signalOnNotFound shop =
              [''https://shop.example/account/login'', ''https://shop.example/account'']"
    by code_simp
  have b': "fetch signalOnNotFound 1 ''https://shop.example/account'' =
              Inr \<lparr>resp_status = 404, resp_headers = [''location'' \<mapsto> ''/auth/login''],
                   resp_text = Inr []\<rparr>"
    by (simp add: signalOnNotFound_def scripted_def redirectTo_def)
  have c': "includes_str ''/auth/login'' ''/auth/login''"
    by code_simp
  show ?thesis
    using location_signal_new [of 0 signalRedirect shop _ "''https://accounts.shopify.com/lookup''"]
      location_signal_new [of 1 signalOnNotFound shop _ "''/auth/login''"]
      a b c a' b' c'
    by (simp add: includes_str_iff)
qed

subsection \<open>The redirect cap\<close>

lemma followsRedirect_continues:
  assumes "followsRedirect p i cur"
  obtains r u' where "fetch p i cur = Inr r" and "iteration p s l cur r = Inr (Continue u')"
proof -
  from assms obtain r where r: "fetch p i cur = Inr r"
    by (auto simp: followsRedirect_def split: sum.splits)
  with assms obtain location where loc: "resp_headers r ''location'' = Some location"
    and st: "300 \<le> resp_status r" "resp_status r < 400"
    and ne: "location \<noteq> []" and ns: "\<not> isNewAccountRedirect location"
    and ok: "startsWith location ''http'' \<or> (\<exists>href. url_href p location cur = Inr href)"
    by (auto simp: followsRedirect_def isNewAccountRedirect_iff split: option.splits sum.splits)
  from ok have "\<exists>u'. iteration p s l cur r = Inr (Continue u')"
    using loc st ne ns by (auto simp: iteration_def headerOrEmpty_def)
  with r that show thesis by blast
qed

text \<open>
  C5. One call of \<^verbatim>\<open>checkStore\<close> sends at most 6 requests. When every request it sends is
  answered by a redirect that the loop follows, it sends exactly 6 and returns the type
  unknown with the note "Too many redirects" and the status of the sixth response.
\<close>

theorem at_most_six_requests:
  "length (requests p storeUrl) \<le> 6 \<and>
   ((\<forall>k < length (requests p storeUrl). followsRedirect p k (requests p storeUrl ! k)) \<longrightarrow>
      length (requests p storeUrl) = 6 \<and>
      (\<exists>r. fetch p 5 (requests p storeUrl ! 5) = Inr r \<and>
           checkStore p storeUrl =
             \<lparr>url = storeUrl, type = Unknown, status = Some (resp_status r), redirect = None,
              note_field = Some ''Too many redirects'', error = None\<rparr>))"
proof (intro conjI impI)
  show "length (requests p storeUrl) \<le> 6"
    using requests_length [of p storeUrl] by (simp add: maxRedirects_def)
next
  assume all: "\<forall>k < length (requests p storeUrl). followsRedirect p k (requests p storeUrl ! k)"
  let ?tr = "requests p storeUrl"
  obtain k where k: "length ?tr = Suc k"
    using requests_first [of p storeUrl] by auto
  then have lt: "k < length ?tr" by simp
  with all have "followsRedirect p k (?tr ! k)" by blast
  then obtain r u' where r: "fetch p k (?tr ! k) = Inr r"
    and it: "iteration p storeUrl (loginUrlOf storeUrl) (?tr ! k) r = Inr (Continue u')"
    by (rule followsRedirect_continues)
  from pass_continues [OF lt r it] k
  have six: "Suc k = maxRedirects" and res: "checkStore p storeUrl = tooManyRedirects storeUrl (resp_status r)"
    by simp_all
  from six k show "length ?tr = 6" by (simp add: maxRedirects_def)
  from six have "k = 5" by (simp add: maxRedirects_def)
  with r res show "\<exists>r. fetch p 5 (?tr ! 5) = Inr r \<and>
           checkStore p storeUrl =
             \<lparr>url = storeUrl, type = Unknown, status = Some (resp_status r), redirect = None,
              note_field = Some ''Too many redirects'', error = None\<rparr>"
    by (auto simp: tooManyRedirects_def)
qed

theorem at_most_six_requests_witness:
  "length (requests endlessRedirect shop) = 6 \<and>
   checkStore endlessRedirect shop =
     \<lparr>url = shop, type = Unknown, status = Some 308, redirect = None,
      note_field = Some ''Too many redirects'', error = None\<rparr>"
proof -
  have tr: "requests endlessRedirect shop =
              [''https://shop.example/account/login'', ''https://shop.example/a'',
               ''https://shop.example/b'', ''https://shop.example/c'', ''https://shop.example/d'',
               ''https://shop.example/e'']"
    by code_simp
  have f: "followsRedirect endlessRedirect 0 ''https://shop.example/account/login''"
    "followsRedirect endlessRedirect 1 ''https://shop.example/a''"
    "followsRedirect endlessRedirect 2 ''https://shop.example/b''"
    "followsRedirect endlessRedirect 3 ''https://shop.example/c''"
    "followsRedirect endlessRedirect 4 ''https://shop.example/d''"
    "followsRedirect endlessRedirect 5 ''https://shop.example/e''"
    unfolding followsRedirect_def signalTarget_def includes_str_iff [symmetric]
    by code_simp+
  have all: "\<forall>k < length (requests endlessRedirect shop).
      followsRedirect endlessRedirect k (requests endlessRedirect shop ! k)"
    unfolding tr using f by (simp add: less_Suc_eq nth_Cons' eval_nat_numeral)
  have st: "fetch endlessRedirect 5 ''https://shop.example/e'' = redirectTo 308 ''/f''"
    by (simp add: endlessRedirect_def scripted_def)
  from at_most_six_requests [of endlessRedirect shop] all tr st
  show ?thesis
    by (auto simp: redirectTo_def)
qed

subsection \<open>Status 406\<close>

text \<open>
  C6. A response of status 406 without a signal in its \<^verbatim>\<open>Location\<close>: when the current URL is
  not the login URL and its host name differs from the host name of the store URL, the
  result is new, with a note naming the host; when the current URL is the login URL, or
  the two host names are equal, the result is unknown, with a note giving the status 406
  and the current URL.
\<close>

theorem status_406:
  assumes "k < length (requests p storeUrl)"
    and "fetch p k (requests p storeUrl ! k) = Inr r"
    and "resp_status r = 406" and "\<not> hasLocationSignal r"
  shows "(requests p storeUrl ! k \<noteq> storeUrl @ ''/account/login'' \<and>
          url_hostname p (requests p storeUrl ! k) = Inr redirectHost \<and>
          url_hostname p storeUrl = Inr storeHost \<and> redirectHost \<noteq> storeHost \<longrightarrow>
            checkStore p storeUrl =
              \<lparr>url = storeUrl, type = New, status = Some 406, redirect = None,
               note_field = Some (''Redirected to custom account domain: '' @ redirectHost),
               error = None\<rparr>) \<and>
         (requests p storeUrl ! k = storeUrl @ ''/account/login'' \<or>
          url_hostname p (requests p storeUrl ! k) = Inr redirectHost \<and>
          url_hostname p storeUrl = Inr storeHost \<and> redirectHost = storeHost \<longrightarrow>
            checkStore p storeUrl =
              \<lparr>url = storeUrl, type = Unknown, status = Some 406, redirect = None,
               note_field = Some (''Unexpected status 406 at '' @ requests p storeUrl ! k),
               error = None\<rparr>)"
proof (intro conjI impI)
  let ?cur = "requests p storeUrl ! k"
  from assms(4) have ns: "\<not> isNewAccountRedirect (headerOrEmpty r ''location'')"
    by (simp add: location_signal_iff)
  {
    assume "?cur \<noteq> storeUrl @ ''/account/login'' \<and> url_hostname p ?cur = Inr redirectHost \<and>
            url_hostname p storeUrl = Inr storeHost \<and> redirectHost \<noteq> storeHost"
    then have "iteration p storeUrl (loginUrlOf storeUrl) ?cur r =
                 Inr (Return \<lparr>url = storeUrl, type = New, status = Some 406, redirect = None,
                   note_field = Some (''Redirected to custom account domain: '' @ redirectHost),
                   error = None\<rparr>)"
      using iteration_406_custom_domain [OF assms(3) ns, of ?cur "loginUrlOf storeUrl" p]
      by (simp add: loginUrlOf_def)
    from pass_returns [OF assms(1,2) this]
    show "checkStore p storeUrl =
              \<lparr>url = storeUrl, type = New, status = Some 406, redirect = None,
               note_field = Some (''Redirected to custom account domain: '' @ redirectHost),
               error = None\<rparr>"
      by simp
  }
  {
    assume "?cur = storeUrl @ ''/account/login'' \<or>
            url_hostname p ?cur = Inr redirectHost \<and>
            url_hostname p storeUrl = Inr storeHost \<and> redirectHost = storeHost"
    then have "?cur = loginUrlOf storeUrl \<or>
               (\<exists>host. url_hostname p ?cur = Inr host \<and> url_hostname p storeUrl = Inr host)"
      by (auto simp: loginUrlOf_def)
    from pass_returns [OF assms(1,2) iteration_406_unknown [OF assms(3) ns this]]
    show "checkStore p storeUrl =
              \<lparr>url = storeUrl, type = Unknown, status = Some 406, redirect = None,
               note_field = Some (''Unexpected status 406 at '' @ ?cur), error = None\<rparr>"
      by simp
  }
qed

theorem status_406_witness:
  "checkStore customDomain shop =
     \<lparr>url = shop, type = New, status = Some 406, redirect = None,
      note_field = Some ''Redirected to custom account domain: account.brand.example'',
      error = None\<rparr> \<and>
   checkStore sameHost shop =
     \<lparr>url = shop, type = Unknown, status = Some 406, redirect = None,
      note_field = Some ''Unexpected status 406 at https://shop.example/customer'',
      error = None\<rparr> \<and>
   checkStore notAcceptable shop =
     \<lparr>url = shop, type = Unknown, status = Some 406, redirect = None,
      note_field = Some ''Unexpected status 406 at https://shop.example/account/login'',
      error = None\<rparr>"
proof -
  have tr: "requests customDomain shop =
              [''https://shop.example/account/login'', ''https://account.brand.example/'']"
    "requests sameHost shop = [''https://shop.example/account/login'', ''https://shop.example/customer'']"
    "requests notAcceptable shop = [''https://shop.example/account/login'']"
    by code_simp+
  have f: "fetch customDomain 1 ''https://account.brand.example/'' = page 406 []"
    "fetch sameHost 1 ''https://shop.example/customer'' = page 406 []"
    "fetch notAcceptable 0 ''https://shop.example/account/login'' = page 406 []"
    by (simp_all add: customDomain_def sameHost_def notAcceptable_def scripted_def)
  have h: "url_hostname customDomain ''https://account.brand.example/'' = Inr ''account.brand.example''"
    "url_hostname customDomain shop = Inr ''shop.example''"
    "url_hostname sameHost ''https://shop.example/customer'' = Inr ''shop.example''"
    "url_hostname sameHost shop = Inr ''shop.example''"
    by code_simp+
  have s: "shop @ ''/account/login'' = ''https://shop.example/account/login''"
    by (simp add: shop_def)
  have n: "\<not> hasLocationSignal \<lparr>resp_status = 406, resp_headers = Map.empty, resp_text = Inr []\<rparr>"
    by (simp add: hasLocationSignal_def)
  show ?thesis
    using status_406 [of 1 customDomain shop _ "''account.brand.example''" "''shop.example''"]
      status_406 [of 1 sameHost shop _ "''shop.example''" "''shop.example''"]
      status_406 [of 0 notAcceptable shop]
      tr f h s n
    by (simp add: page_def)
qed

subsection \<open>Status 404\<close>

lemma url_href_replaceBodies404: "url_href (replaceBodies404 bodies p) = url_href p"
  by (simp add: replaceBodies404_def)

lemma url_hostname_replaceBodies404: "url_hostname (replaceBodies404 bodies p) = url_hostname p"
  by (simp add: replaceBodies404_def)

lemma customDomain406_replaceBodies404:
  "customDomain406 (replaceBodies404 bodies p) s l cur st = customDomain406 p s l cur st"
  unfolding customDomain406_def url_hostname_replaceBodies404
  by (rule refl)

lemma iteration_replaceBodies404:
  "iteration (replaceBodies404 bodies p) s l cur r = iteration p s l cur r"
  unfolding iteration_def url_href_replaceBodies404 customDomain406_replaceBodies404
  by (rule refl)

lemma headerOrEmpty_body: "headerOrEmpty (r\<lparr>resp_text := t\<rparr>) name = headerOrEmpty r name"
  by (simp add: headerOrEmpty_def)

lemma finalStatus_body_404:
  assumes "resp_status r = 404"
  shows "finalStatus s cur (r\<lparr>resp_text := t\<rparr>) = finalStatus s cur r"
  using assms by (simp add: finalStatus_def)

lemma resp_status_body: "resp_status (r\<lparr>resp_text := t\<rparr>) = resp_status r"
  by simp

lemma iteration_body_404:
  assumes "resp_status r = 404"
  shows "iteration p s l cur (r\<lparr>resp_text := t\<rparr>) = iteration p s l cur r"
  unfolding iteration_def headerOrEmpty_body finalStatus_body_404 [OF assms] resp_status_body
  by (rule refl)

lemma loop_replaceBodies404:
  "loop (replaceBodies404 bodies p) s l i cur ls = loop p s l i cur ls"
proof (induction p s l i cur ls rule: loop.induct)
  case (1 p s l i cur ls)
  let ?p' = "replaceBodies404 bodies p"
  show ?case
  proof (cases "i < maxRedirects")
    case False
    then show ?thesis by (simp add: loop_exhausted)
  next
    case True
    show ?thesis
    proof (cases "fetch p i cur")
      case (Inl e)
      then have "fetch ?p' i cur = Inl e"
        by (simp add: replaceBodies404_def)
      with Inl True show ?thesis
        by (simp add: loop_unfold [of ?p'] loop_unfold [of p])
    next
      case (Inr r)
      define r' where "r' = (if resp_status r = 404 then r\<lparr>resp_text := bodies i cur\<rparr> else r)"
      from Inr have f': "fetch ?p' i cur = Inr r'"
        by (simp add: replaceBodies404_def r'_def)
      have st: "resp_status r' = resp_status r"
        by (simp add: r'_def)
      have it: "iteration ?p' s l cur r' = iteration p s l cur r"
        by (simp add: iteration_replaceBodies404 r'_def iteration_body_404)
      show ?thesis
      proof (cases "iteration p s l cur r")
        case (Inl e)
        with True Inr f' it show ?thesis
          by (simp add: loop_unfold [of ?p' s l i] loop_unfold [of p s l i])
      next
        case c: (Inr c)
        show ?thesis
        proof (cases c)
          case (Return res)
          with True Inr f' it c show ?thesis
            by (simp add: loop_unfold [of ?p' s l i] loop_unfold [of p s l i])
        next
          case (Continue u)
          from "1.IH" [OF True Inr c Continue]
          have "loop ?p' s l (Suc i) u (resp_status r) = loop p s l (Suc i) u (resp_status r)"
            by simp
          with True Inr f' it c Continue st show ?thesis
            by (simp add: loop_unfold [of ?p' s l i] loop_unfold [of p s l i])
        qed
      qed
    qed
  qed
qed

text \<open>
  C7. A response of status 404 without a signal in its \<^verbatim>\<open>Location\<close> gives the type
  not-shopify with a note; and replacing the body of every 404 response by anything else,
  a rejected read included, leaves the result of \<^verbatim>\<open>checkStore\<close> the same.
\<close>

theorem status_404_not_shopify:
  "(k < length (requests p storeUrl) \<and> fetch p k (requests p storeUrl ! k) = Inr r \<and>
    resp_status r = 404 \<and> \<not> hasLocationSignal r \<longrightarrow>
      checkStore p storeUrl =
        \<lparr>url = storeUrl, type = NotShopify, status = Some 404, redirect = None,
         note_field = Some (''No /account/login page found '' @ [CHR 0xE2, CHR 0x80, CHR 0x94] @
                            '' likely not a Shopify store''),
         error = None\<rparr>) \<and>
   checkStore (replaceBodies404 bodies p) storeUrl = checkStore p storeUrl"
proof (intro conjI impI)
  assume a: "k < length (requests p storeUrl) \<and> fetch p k (requests p storeUrl ! k) = Inr r \<and>
    resp_status r = 404 \<and> \<not> hasLocationSignal r"
  then have "iteration p storeUrl (loginUrlOf storeUrl) (requests p storeUrl ! k) r =
           Inr (Return \<lparr>url = storeUrl, type = NotShopify, status = Some 404, redirect = None,
                        note_field = Some (''No /account/login page found '' @
                                           [CHR 0xE2, CHR 0x80, CHR 0x94] @
                                           '' likely not a Shopify store''),
                        error = None\<rparr>)"
    by (intro iteration_404) (simp_all add: location_signal_iff)
  with a pass_returns [of k p storeUrl r]
  show "checkStore p storeUrl =
        \<lparr>url = storeUrl, type = NotShopify, status = Some 404, redirect = None,
         note_field = Some (''No /account/login page found '' @ [CHR 0xE2, CHR 0x80, CHR 0x94] @
                            '' likely not a Shopify store''),
         error = None\<rparr>"
    by blast
next
  show "checkStore (replaceBodies404 bodies p) storeUrl = checkStore p storeUrl"
    by (simp add: checkStore_def probe_def loop_replaceBodies404)
qed

theorem status_404_not_shopify_witness:
  "checkStore notFound shop =
     \<lparr>url = shop, type = NotShopify, status = Some 404, redirect = None,
      note_field = Some (''No /account/login page found '' @ [CHR 0xE2, CHR 0x80, CHR 0x94] @
                         '' likely not a Shopify store''),
      error = None\<rparr> \<and>
   checkStore (replaceBodies404 (\<lambda>i u. Inl (ErrorInstance ''terminated'')) notFound) shop =
     checkStore notFound shop"
proof -
  have tr: "requests notFound shop = [''https://shop.example/account/login'']"
    by code_simp
  have f: "fetch notFound 0 ''https://shop.example/account/login'' =
             page 404 ''<html>Shopify customer_login SignInWithShop</html>''"
    by (simp add: notFound_def scripted_def)
  have n: "\<not> hasLocationSignal \<lparr>resp_status = 404, resp_headers = Map.empty,
             resp_text = Inr ''<html>Shopify customer_login SignInWithShop</html>''\<rparr>"
    by (simp add: hasLocationSignal_def)
  show ?thesis
    using status_404_not_shopify [of 0 notFound shop
        "\<lparr>resp_status = 404, resp_headers = Map.empty,
          resp_text = Inr ''<html>Shopify customer_login SignInWithShop</html>''\<rparr>"
        "\<lambda>i u. Inl (ErrorInstance ''terminated'')"]
      tr f n
    by (simp add: page_def)
qed

subsection \<open>The last request decides\<close>

lemma checkStore_cases:
  obtains
    (fetch_throws) err where
      "fetch p (length (requests p u) - 1) (last (requests p u)) = Inl err"
      "fst (probe p u) = Inl err"
  | (pass_throws) r err where
      "fetch p (length (requests p u) - 1) (last (requests p u)) = Inr r"
      "iteration p u (loginUrlOf u) (last (requests p u)) r = Inl err"
      "fst (probe p u) = Inl err"
  | (returns) r res where
      "fetch p (length (requests p u) - 1) (last (requests p u)) = Inr r"
      "iteration p u (loginUrlOf u) (last (requests p u)) r = Inr (Return res)"
      "fst (probe p u) = Inr res"
  | (exhausted) r where
      "fetch p (length (requests p u) - 1) (last (requests p u)) = Inr r"
      "fst (probe p u) = Inr (tooManyRedirects u (resp_status r))"
proof -
  let ?tr = "requests p u"
  obtain k where k: "length ?tr = Suc k"
    using requests_first [of p u] by auto
  then have lt: "k < length ?tr" and last: "last ?tr = ?tr ! k" and k': "length ?tr - 1 = k"
    by (simp_all add: last_conv_nth [of ?tr] length_0_conv [symmetric] del: length_0_conv)
  note pass = probe_pass [OF lt, unfolded passSpec_def]
  show thesis
  proof (cases "fetch p k (?tr ! k)")
    case (Inl err)
    with pass fetch_throws last k' show thesis by simp
  next
    case (Inr r)
    show thesis
    proof (cases "iteration p u (loginUrlOf u) (?tr ! k) r")
      case (Inl err)
      with pass pass_throws Inr last k' show thesis by simp
    next
      case it: (Inr c)
      show thesis
      proof (cases c)
        case (Return res)
        with pass it returns Inr last k' show thesis by simp
      next
        case (Continue u')
        with pass it Inr k have "fst (probe p u) = Inr (tooManyRedirects u (resp_status r))"
          by simp
        with exhausted Inr last k' show thesis by simp
      qed
    qed
  qed
qed

lemma classifyFromBody_fields:
  "url (classifyFromBody s body st) = s \<and> type (classifyFromBody s body st) \<noteq> Error \<and>
   status (classifyFromBody s body st) = Some st \<and> error (classifyFromBody s body st) = None \<and>
   redirect (classifyFromBody s body st) = None"
  by (simp add: classifyFromBody_def)

lemma finalStatus_fields:
  assumes "finalStatus s cur r = Inr res"
  shows "url res = s \<and> type res \<noteq> Error \<and> status res = Some (resp_status r) \<and>
         error res = None \<and> redirect res = None"
proof (cases "resp_status r = 200")
  case True
  with assms obtain body where
    "res = classifyFromBody s body (resp_status r) \<or>
     res = \<lparr>url = s, type = NotShopify, status = Some (resp_status r), redirect = None,
            note_field = Some ''Does not appear to be a Shopify store'', error = None\<rparr>"
    by (auto simp: finalStatus_def Let_def split: sum.splits if_splits)
  then show ?thesis
    using classifyFromBody_fields [of s body "resp_status r"] by auto
next
  case False
  with assms show ?thesis
    by (auto simp: finalStatus_def Let_def split: if_splits)
qed

lemma customDomain406_fields:
  assumes "customDomain406 p s l cur st = Inr (Some res)"
  shows "url res = s \<and> type res = New \<and> status res = Some st \<and> error res = None \<and>
         redirect res = None"
  using assms
  by (auto simp: customDomain406_def split: if_splits sum.splits)

lemma iteration_fields:
  assumes "iteration p s l cur r = Inr (Return res)"
  shows "url res = s \<and> type res \<noteq> Error \<and> status res = Some (resp_status r) \<and>
         error res = None \<and>
         (redirect res \<noteq> None \<longrightarrow>
            type res = New \<and> hasLocationSignal r \<and> redirect res = resp_headers r ''location'')"
proof (cases "isNewAccountRedirect (headerOrEmpty r ''location'')")
  case True
  then have sig: "hasLocationSignal r"
    by (simp add: location_signal_iff)
  then obtain location where loc: "resp_headers r ''location'' = Some location"
    by (auto simp: hasLocationSignal_def split: option.splits)
  with True have "isNewAccountRedirect location"
    by (simp add: headerOrEmpty_def)
  from iteration_signal [OF loc this, of p s l cur] assms sig loc show ?thesis
    by auto
next
  case False
  show ?thesis
  proof (cases "300 \<le> resp_status r \<and> resp_status r < 400 \<and> headerOrEmpty r ''location'' \<noteq> []")
    case True
    with False assms have False
      by (auto simp: iteration_def Let_def split: if_splits sum.splits)
    then show ?thesis ..
  next
    case nf: False
    with False assms have
      "customDomain406 p s l cur (resp_status r) = Inr (Some res) \<or> finalStatus s cur r = Inr res"
      by (auto simp: iteration_def Let_def split: if_splits sum.splits option.splits)
    then show ?thesis
      using customDomain406_fields [of p s l cur "resp_status r" res] finalStatus_fields [of s cur r res]
      by auto
  qed
qed

lemma probe_returned_fields:
  assumes "fst (probe p u) = Inr res"
  shows "\<exists>r. fetch p (length (requests p u) - 1) (last (requests p u)) = Inr r \<and>
             url res = u \<and> type res \<noteq> Error \<and> status res = Some (resp_status r) \<and>
             error res = None \<and>
             (redirect res \<noteq> None \<longrightarrow>
                type res = New \<and> hasLocationSignal r \<and> redirect res = resp_headers r ''location'')"
proof (cases p u rule: checkStore_cases)
  case (fetch_throws err)
  with assms show ?thesis by simp
next
  case (pass_throws r err)
  with assms show ?thesis by simp
next
  case (returns r res')
  with assms iteration_fields [OF returns(2)] show ?thesis by auto
next
  case (exhausted r)
  with assms show ?thesis by (auto simp: tooManyRedirects_def)
qed

lemma checkStore_summary:
  "(\<exists>err. fst (probe p u) = Inl err \<and> checkStore p u = errorResult u err) \<or>
   (\<exists>r. fetch p (length (requests p u) - 1) (last (requests p u)) = Inr r \<and>
        url (checkStore p u) = u \<and>
        type (checkStore p u) \<noteq> Error \<and> status (checkStore p u) = Some (resp_status r) \<and>
        error (checkStore p u) = None \<and>
        (redirect (checkStore p u) \<noteq> None \<longrightarrow>
           type (checkStore p u) = New \<and> hasLocationSignal r \<and>
           redirect (checkStore p u) = resp_headers r ''location''))"
proof (cases "fst (probe p u)")
  case (Inl err)
  then show ?thesis by (simp add: checkStore_thrown)
next
  case (Inr res)
  with probe_returned_fields [OF Inr] show ?thesis
    by (simp add: checkStore_returned)
qed

subsection \<open>Exceptions\<close>

lemma checkStore_error_iff: "type (checkStore p u) = Error \<longleftrightarrow> (\<exists>err. fst (probe p u) = Inl err)"
proof (cases "fst (probe p u)")
  case (Inl err)
  then show ?thesis by (simp add: checkStore_thrown errorResult_def)
next
  case (Inr res)
  with probe_returned_fields [OF Inr] show ?thesis
    by (auto simp: checkStore_returned)
qed

text \<open>
  C1. \<^verbatim>\<open>checkStore\<close> is a total function into \<^verbatim>\<open>CheckResult\<close>, for every store URL and
  every platform. Whatever is thrown in the \<^verbatim>\<open>try\<close> block becomes the result of type error
  whose error field is the message of the thrown value; the type is error only then.
  When a request is rejected, or the handling of its response throws (resolving the
  redirect target, parsing a host name, reading the body), that request is the last one
  sent: nothing is retried.
\<close>

theorem checkStore_never_throws:
  "(fst (probe p storeUrl) = Inl err \<longrightarrow>
      checkStore p storeUrl =
        \<lparr>url = storeUrl, type = Error, status = None, redirect = None, note_field = None,
         error = Some (errText err)\<rparr>) \<and>
   (k < length (requests p storeUrl) \<and>
    (fetch p k (requests p storeUrl ! k) = Inl err \<or>
     (\<exists>r. fetch p k (requests p storeUrl ! k) = Inr r \<and>
          iteration p storeUrl (storeUrl @ ''/account/login'') (requests p storeUrl ! k) r = Inl err)) \<longrightarrow>
      checkStore p storeUrl =
        \<lparr>url = storeUrl, type = Error, status = None, redirect = None, note_field = None,
         error = Some (errText err)\<rparr> \<and>
      length (requests p storeUrl) = Suc k) \<and>
   (type (checkStore p storeUrl) = Error \<longrightarrow> (\<exists>e. fst (probe p storeUrl) = Inl e)) \<and>
   errText (ErrorInstance message) = message"
proof (intro conjI impI)
  assume "fst (probe p storeUrl) = Inl err"
  then show "checkStore p storeUrl =
        \<lparr>url = storeUrl, type = Error, status = None, redirect = None, note_field = None,
         error = Some (errText err)\<rparr>"
    by (simp add: checkStore_def)
next
  assume a: "k < length (requests p storeUrl) \<and>
    (fetch p k (requests p storeUrl ! k) = Inl err \<or>
     (\<exists>r. fetch p k (requests p storeUrl ! k) = Inr r \<and>
          iteration p storeUrl (storeUrl @ ''/account/login'') (requests p storeUrl ! k) r = Inl err))"
  then have "checkStore p storeUrl = errorResult storeUrl err \<and> length (requests p storeUrl) = Suc k"
  proof (elim conjE disjE exE)
    assume "k < length (requests p storeUrl)" "fetch p k (requests p storeUrl ! k) = Inl err"
    then show ?thesis by (rule pass_fetch_throws)
  next
    fix r
    assume "k < length (requests p storeUrl)" "fetch p k (requests p storeUrl ! k) = Inr r"
      "iteration p storeUrl (storeUrl @ ''/account/login'') (requests p storeUrl ! k) r = Inl err"
    then show ?thesis
      using pass_iteration_throws [of k p storeUrl r err] by (simp add: loginUrlOf_def)
  qed
  then show "checkStore p storeUrl =
        \<lparr>url = storeUrl, type = Error, status = None, redirect = None, note_field = None,
         error = Some (errText err)\<rparr>"
    and "length (requests p storeUrl) = Suc k"
    by (simp_all add: errorResult_def)
next
  assume "type (checkStore p storeUrl) = Error"
  then show "\<exists>e. fst (probe p storeUrl) = Inl e"
    by (simp add: checkStore_error_iff)
next
  show "errText (ErrorInstance message) = message"
    by simp
qed

theorem checkStore_never_throws_witness:
  "checkStore unreachable shop =
     \<lparr>url = shop, type = Error, status = None, redirect = None, note_field = None,
      error = Some ''fetch failed''\<rparr> \<and>
   length (requests unreachable shop) = 1 \<and>
   checkStore bodyLost shop =
     \<lparr>url = shop, type = Error, status = None, redirect = None, note_field = None,
      error = Some ''terminated''\<rparr> \<and>
   checkStore badRedirect shop =
     \<lparr>url = shop, type = Error, status = None, redirect = None, note_field = None,
      error = Some ''Invalid URL''\<rparr>"
proof -
  have tr: "requests unreachable shop = [''https://shop.example/account/login'']"
    by code_simp
  have f: "fetch unreachable 0 ''https://shop.example/account/login'' =
             Inl (ErrorInstance ''fetch failed'')"
    by (simp add: unreachable_def scripted_def)
  have a: "checkStore unreachable shop =
     \<lparr>url = shop, type = Error, status = None, redirect = None, note_field = None,
      error = Some ''fetch failed''\<rparr> \<and>
   length (requests unreachable shop) = 1"
    using checkStore_never_throws [of unreachable shop "ErrorInstance ''fetch failed''" 0 "[]",
        THEN conjunct2, THEN conjunct1] tr f
    by simp
  have g: "fst (probe bodyLost shop) = Inl (ErrorInstance ''terminated'')"
    by code_simp
  have b: "checkStore bodyLost shop =
     \<lparr>url = shop, type = Error, status = None, redirect = None, note_field = None,
      error = Some ''terminated''\<rparr>"
    using checkStore_never_throws [of bodyLost shop "ErrorInstance ''terminated''" 0 "[]",
        THEN conjunct1] g
    by simp
  have h: "fst (probe badRedirect shop) = Inl (ErrorInstance ''Invalid URL'')"
    by code_simp
  have c: "checkStore badRedirect shop =
     \<lparr>url = shop, type = Error, status = None, redirect = None, note_field = None,
      error = Some ''Invalid URL''\<rparr>"
    using checkStore_never_throws [of badRedirect shop "ErrorInstance ''Invalid URL''" 0 "[]",
        THEN conjunct1] h
    by simp
  from a b c show ?thesis by blast
qed

subsection \<open>The fields of the result\<close>

text \<open>
  C4. The type of a result of \<^verbatim>\<open>checkStore\<close> is one of the six; the error field is there
  exactly when the type is error, and then the status and the note are not; the redirect
  field is there only when the type is new and the last response carried a
  \<^verbatim>\<open>Location\<close> signal, and it is that \<^verbatim>\<open>Location\<close>. No result of the body classifier and
  no result of the 406 block has a redirect.
\<close>

theorem checkResult_invariants:
  "type (checkStore p storeUrl) \<in> {New, Legacy, PasswordProtected, NotShopify, Unknown, Error} \<and>
   (error (checkStore p storeUrl) \<noteq> None \<longleftrightarrow> type (checkStore p storeUrl) = Error) \<and>
   (type (checkStore p storeUrl) = Error \<longrightarrow>
      status (checkStore p storeUrl) = None \<and> note_field (checkStore p storeUrl) = None) \<and>
   (redirect (checkStore p storeUrl) \<noteq> None \<longrightarrow>
      type (checkStore p storeUrl) = New \<and>
      (\<exists>r. fetch p (length (requests p storeUrl) - 1) (last (requests p storeUrl)) = Inr r \<and>
           hasLocationSignal r \<and>
           redirect (checkStore p storeUrl) = resp_headers r ''location'')) \<and>
   redirect (classifyFromBody storeUrl body st) = None \<and>
   (customDomain406 p storeUrl loginUrl currentUrl st = Inr (Some result) \<longrightarrow>
      redirect result = None)"
proof (intro conjI)
  show "type (checkStore p storeUrl) \<in> {New, Legacy, PasswordProtected, NotShopify, Unknown, Error}"
    by (cases "type (checkStore p storeUrl)") simp_all
  show "error (checkStore p storeUrl) \<noteq> None \<longleftrightarrow> type (checkStore p storeUrl) = Error"
    using checkStore_summary [of p storeUrl] by (auto simp: errorResult_def)
  show "type (checkStore p storeUrl) = Error \<longrightarrow>
      status (checkStore p storeUrl) = None \<and> note_field (checkStore p storeUrl) = None"
    using checkStore_summary [of p storeUrl] by (auto simp: errorResult_def)
  show "redirect (checkStore p storeUrl) \<noteq> None \<longrightarrow>
      type (checkStore p storeUrl) = New \<and>
      (\<exists>r. fetch p (length (requests p storeUrl) - 1) (last (requests p storeUrl)) = Inr r \<and>
           hasLocationSignal r \<and>
           redirect (checkStore p storeUrl) = resp_headers r ''location'')"
    using checkStore_summary [of p storeUrl] by (auto simp: errorResult_def)
  show "redirect (classifyFromBody storeUrl body st) = None"
    by (simp add: classifyFromBody_fields)
  show "customDomain406 p storeUrl loginUrl currentUrl st = Inr (Some result) \<longrightarrow>
      redirect result = None"
    using customDomain406_fields [of p storeUrl loginUrl currentUrl st result] by blast
qed

theorem checkResult_invariants_witness:
  "type (checkStore unreachable shop) = Error \<and>
   error (checkStore unreachable shop) = Some ''fetch failed'' \<and>
   status (checkStore unreachable shop) = None \<and>
   note_field (checkStore unreachable shop) = None \<and>
   redirect (checkStore signalRedirect shop) = Some ''https://accounts.shopify.com/lookup'' \<and>
   type (checkStore signalRedirect shop) = New \<and>
   error (checkStore signalRedirect shop) = None"
proof -
  have a: "checkStore unreachable shop =
     \<lparr>url = shop, type = Error, status = None, redirect = None, note_field = None,
      error = Some ''fetch failed''\<rparr>"
    by code_simp
  have b: "redirect (checkStore signalRedirect shop) = Some ''https://accounts.shopify.com/lookup''"
    by code_simp
  show ?thesis
    using checkResult_invariants [of unreachable shop "[]" 0 "[]" "[]" "checkStore unreachable shop"]
      checkResult_invariants [of signalRedirect shop "[]" 0 "[]" "[]" "checkStore unreachable shop"]
      a b
    by auto
qed

text \<open>
  C10. The status field is there exactly when the type is not error, and then it is the
  status of the response to the last request; the url field is the store URL given.
\<close>

theorem status_and_url_fields:
  "(status (checkStore p storeUrl) \<noteq> None \<longleftrightarrow> type (checkStore p storeUrl) \<noteq> Error) \<and>
   url (checkStore p storeUrl) = storeUrl \<and>
   (type (checkStore p storeUrl) \<noteq> Error \<longrightarrow>
      (\<exists>r. fetch p (length (requests p storeUrl) - 1) (last (requests p storeUrl)) = Inr r \<and>
           status (checkStore p storeUrl) = Some (resp_status r)))"
  using checkStore_summary [of p storeUrl] by (auto simp: errorResult_def)

theorem status_and_url_fields_witness:
  "type (checkStore legacyStore shop) = Legacy \<and>
   status (checkStore legacyStore shop) = Some 200 \<and>
   url (checkStore legacyStore shop) = shop \<and>
   requests legacyStore shop =
     [''https://shop.example/account/login'',
      ''https://shop.example/account/login?return_url=%2Faccount''] \<and>
   type (checkStore unreachable shop) = Error \<and>
   status (checkStore unreachable shop) = None \<and>
   url (checkStore unreachable shop) = shop"
proof -
  have a: "type (checkStore legacyStore shop) = Legacy"
    "requests legacyStore shop =
     [''https://shop.example/account/login'',
      ''https://shop.example/account/login?return_url=%2Faccount'']"
    "type (checkStore unreachable shop) = Error"
    by code_simp+
  have f: "fetch legacyStore 1 ''https://shop.example/account/login?return_url=%2Faccount'' = Inr r
           \<Longrightarrow> resp_status r = 200" for r
    by (auto simp: legacyStore_def scripted_def page_def)
  show ?thesis
    using status_and_url_fields [of legacyStore shop] status_and_url_fields [of unreachable shop] a f
    by auto
qed

section \<open>The URL normaliser\<close>

lemma stripLeading_Nil: "stripLeading ws [] = []"
proof -
  have "find (\<lambda>w. w \<noteq> [] \<and> startsWith [] w) ws = None"
    by (auto simp: find_None_iff startsWith_def)
  then show ?thesis
    by (subst stripLeading.simps) simp
qed

lemma trim_Nil: "trim [] = []"
  by (simp add: trim_def stripLeading_Nil)

lemma normalizeUrl_Nil: "normalizeUrl [] = None"
  by (simp add: normalizeUrl_def trim_Nil)

lemma stripTrailingSlashes_http:
  assumes "startsWith s ''http''"
  shows "startsWith (stripTrailingSlashes s) ''http''"
proof -
  from assms obtain rest where s: "s = ''http'' @ rest"
    by (auto simp: startsWith_iff)
  show ?thesis
  proof (cases "\<forall>c \<in> set rest. c = CHR ''/''")
    case True
    then have "stripTrailingSlashes s = ''http''"
      by (simp add: stripTrailingSlashes_def s dropWhile_append)
    then show ?thesis by (simp add: startsWith_def)
  next
    case False
    then have "stripTrailingSlashes s = ''http'' @ stripTrailingSlashes rest"
      by (simp add: stripTrailingSlashes_def s dropWhile_append)
    then show ?thesis by (simp add: startsWith_def)
  qed
qed

lemma stripTrailingSlashes_last:
  assumes "stripTrailingSlashes s \<noteq> []"
  shows "last (stripTrailingSlashes s) \<noteq> CHR ''/''"
proof -
  let ?d = "dropWhile (\<lambda>c. c = CHR ''/'') (rev s)"
  from assms have ne: "?d \<noteq> []"
    by (simp add: stripTrailingSlashes_def)
  then have "hd ?d \<noteq> CHR ''/''"
    using hd_dropWhile [of "\<lambda>c. c = CHR ''/''" "rev s"] by simp
  with ne show ?thesis
    by (simp add: stripTrailingSlashes_def last_rev)
qed

lemma startsWith_http_nonempty: "startsWith u ''http'' \<Longrightarrow> u \<noteq> []"
  by (auto simp: startsWith_def)

lemma normalizeUrl_Some:
  assumes "normalizeUrl input = Some u"
  shows "u \<noteq> [] \<and> startsWith u ''http'' \<and> last u \<noteq> CHR ''/''"
proof -
  let ?t = "trim input"
  let ?full = "if \<not> startsWith ?t ''http'' then ''https://'' @ ?t else ?t"
  from assms have u: "u = stripTrailingSlashes ?full"
    by (auto simp: normalizeUrl_def Let_def split: if_splits)
  have "startsWith ?full ''http''"
    by (simp add: startsWith_def)
  then have h: "startsWith u ''http''"
    unfolding u by (rule stripTrailingSlashes_http)
  then have ne: "u \<noteq> []"
    by (rule startsWith_http_nonempty)
  with stripTrailingSlashes_last [of ?full] u have "last u \<noteq> CHR ''/''"
    by simp
  with h ne show ?thesis by simp
qed

lemma parseUrls_normalizeEach: "parseUrls input = normalizeEach (splitPieces input)"
  by (simp add: parseUrls_def normalizeEach_def)

lemma normalizeEach_elements:
  assumes "u \<in> set (normalizeEach pieces)"
  shows "\<exists>piece \<in> set pieces. normalizeUrl piece = Some u"
  using assms by (auto simp: normalizeEach_def)

lemma normalizeEach_Cons:
  "normalizeEach (piece # pieces) =
     (case normalizeUrl piece of None \<Rightarrow> normalizeEach pieces | Some u \<Rightarrow> u # normalizeEach pieces)"
  by (simp add: normalizeEach_def split: option.splits)

lemma normalizeEach_spec:
  "normalizeEach pieces =
     map (\<lambda>piece. stripTrailingSlashes
                    (if startsWith (trim piece) ''http'' then trim piece
                     else ''https://'' @ trim piece))
         (filter (\<lambda>piece. trim piece \<noteq> [] \<and> \<not> startsWith (trim piece) ''#'') pieces)"
  by (induction pieces) (simp_all add: normalizeEach_def normalizeUrl_def Let_def)

subsection \<open>Splitting\<close>

lemma splitPieces_separator:
  assumes "isSeparator sep"
  shows "splitPieces (sep # rest) = [] # splitPieces (dropWhile isSeparator rest)"
  using assms by simp

lemma splitPieces_piece:
  assumes "\<forall>c \<in> set piece. \<not> isSeparator c"
  shows "splitPieces piece = [piece]"
  using assms by (induction piece) simp_all

lemma splitPieces_append:
  assumes "\<forall>c \<in> set piece. \<not> isSeparator c" and "isSeparator sep"
  shows "splitPieces (piece @ sep # rest) = piece # splitPieces (dropWhile isSeparator rest)"
  using assms by (induction piece) simp_all

lemma normalizeEach_dropWhile:
  "normalizeEach (splitPieces (dropWhile isSeparator s)) = normalizeEach (splitPieces s)"
proof (cases s)
  case Nil
  then show ?thesis by simp
next
  case (Cons c cs)
  then show ?thesis
    by (simp add: normalizeEach_Cons normalizeUrl_Nil)
qed

lemma parseUrls_joinWith:
  assumes "isSeparator sep" and "\<forall>piece \<in> set pieces. \<forall>c \<in> set piece. \<not> isSeparator c"
  shows "parseUrls (joinWith sep pieces) = normalizeEach pieces"
  using assms
proof (induction sep pieces rule: joinWith.induct)
  case (1 sep)
  show ?case
    by (simp add: parseUrls_normalizeEach normalizeEach_Cons normalizeUrl_Nil normalizeEach_def)
next
  case (2 sep piece)
  then show ?case
    by (simp add: parseUrls_normalizeEach splitPieces_piece)
next
  case (3 sep piece other pieces)
  let ?rest = "joinWith sep (other # pieces)"
  from 3 have "parseUrls ?rest = normalizeEach (other # pieces)"
    by simp
  then have rest: "normalizeEach (splitPieces (dropWhile isSeparator ?rest)) = normalizeEach (other # pieces)"
    by (simp add: normalizeEach_dropWhile parseUrls_normalizeEach)
  from 3 have "splitPieces (piece @ sep # ?rest) = piece # splitPieces (dropWhile isSeparator ?rest)"
    by (intro splitPieces_append) simp_all
  then have "parseUrls (joinWith sep (piece # other # pieces)) =
               normalizeEach (piece # splitPieces (dropWhile isSeparator ?rest))"
    by (simp add: parseUrls_normalizeEach)
  also have "\<dots> = normalizeEach (piece # other # pieces)"
    using rest by (cases "normalizeUrl piece") (simp_all add: normalizeEach_Cons [of piece])
  finally show ?case .
qed

lemma splitPieces_nonempty: "splitPieces s \<noteq> []"
  by (induction s rule: splitPieces.induct) (simp_all split: list.splits)

lemma splitLines_nonempty: "splitLines s \<noteq> []"
  by (induction s) (simp_all split: list.splits)

lemma splitPieces_no_separator:
  "piece \<in> set (splitPieces s) \<Longrightarrow> c \<in> set piece \<Longrightarrow> \<not> isSeparator c"
proof (induction s arbitrary: piece rule: splitPieces.induct)
  case 1
  then show ?case by simp
next
  case (2 d ds)
  show ?case
  proof (cases "isSeparator d")
    case True
    with 2 show ?thesis by auto
  next
    case False
    obtain p ps where sp: "splitPieces ds = p # ps"
      using splitPieces_nonempty [of ds] by (cases "splitPieces ds") auto
    with False "2.prems" have "piece = d # p \<or> piece \<in> set ps"
      by auto
    then show ?thesis
    proof
      assume "piece = d # p"
      with "2.prems" have "c = d \<or> c \<in> set p" by auto
      then show ?thesis
        using False "2.IH"(2) [OF False, of p] sp by auto
    next
      assume "piece \<in> set ps"
      then show ?thesis
        using "2.IH"(2) [OF False, of piece] "2.prems" sp by auto
    qed
  qed
qed

lemma splitLines_dropWhile:
  assumes "\<forall>c \<in> set s. c \<noteq> CHR '',''"
  shows "set (splitLines (dropWhile isSeparator s)) \<subseteq> set (splitLines s)"
  using assms
proof (induction s)
  case Nil
  show ?case by simp
next
  case (Cons c cs)
  show ?case
  proof (cases "isSeparator c")
    case True
    with Cons.prems have "c = CHR 0x0A"
      by (simp add: isSeparator_def)
    with True Cons show ?thesis by auto
  next
    case False
    then show ?thesis by simp
  qed
qed

lemma pieces_of_lines:
  assumes "\<forall>c \<in> set s. c \<noteq> CHR '',''"
  shows "hd (splitPieces s) = hd (splitLines s) \<and>
         set (tl (splitPieces s)) \<subseteq> insert [] (set (tl (splitLines s)))"
  using assms
proof (induction s rule: splitPieces.induct)
  case 1
  show ?case by simp
next
  case (2 d ds)
  from "2.prems" have ds: "\<forall>c \<in> set ds. c \<noteq> CHR '',''"
    by simp
  show ?case
  proof (cases "isSeparator d")
    case True
    with "2.prems" have d: "d = CHR 0x0A"
      by (simp add: isSeparator_def)
    let ?rest = "dropWhile isSeparator ds"
    from ds have "\<forall>c \<in> set ?rest. c \<noteq> CHR '',''"
      using set_dropWhileD by fastforce
    from "2.IH"(1) [OF True this]
    have "set (splitPieces ?rest) \<subseteq> insert [] (set (splitLines ?rest))"
      using splitPieces_nonempty [of ?rest] splitLines_nonempty [of ?rest]
      by (cases "splitPieces ?rest"; cases "splitLines ?rest") auto
    with splitLines_dropWhile [OF ds]
    have "set (splitPieces ?rest) \<subseteq> insert [] (set (splitLines ds))"
      by auto
    with True d show ?thesis by simp
  next
    case False
    then have d: "d \<noteq> CHR 0x0A"
      by (auto simp: isSeparator_def)
    obtain p ps where sp: "splitPieces ds = p # ps"
      using splitPieces_nonempty [of ds] by (cases "splitPieces ds") auto
    obtain l ls where sl: "splitLines ds = l # ls"
      using splitLines_nonempty [of ds] by (cases "splitLines ds") auto
    from "2.IH"(2) [OF False ds] sp sl have "p = l" "set ps \<subseteq> insert [] (set ls)"
      by simp_all
    with False d sp sl show ?thesis by simp
  qed
qed

lemma blankOrComment_Nil: "blankOrComment []"
  by (simp add: blankOrComment_def trim_Nil)

lemma pieces_blank_of_lines:
  assumes "\<forall>c \<in> set input. c \<noteq> CHR '',''" and "onlyBlankAndCommentLines input"
  shows "\<forall>piece \<in> set (splitPieces input). blankOrComment piece"
proof
  fix piece
  assume "piece \<in> set (splitPieces input)"
  moreover have "set (splitPieces input) \<subseteq> insert [] (set (splitLines input))"
    using pieces_of_lines [OF assms(1)] splitPieces_nonempty [of input] splitLines_nonempty [of input]
    by (cases "splitPieces input"; cases "splitLines input") auto
  ultimately have "piece = [] \<or> piece \<in> set (splitLines input)"
    by auto
  with assms(2) show "blankOrComment piece"
    by (auto simp: onlyBlankAndCommentLines_def list_all_iff blankOrComment_Nil)
qed

lemma parseUrls_blank_pieces:
  assumes "\<forall>piece \<in> set (splitPieces input). blankOrComment piece"
  shows "parseUrls input = []"
proof -
  from assms have "filter (\<lambda>piece. trim piece \<noteq> [] \<and> \<not> startsWith (trim piece) ''#'')
               (splitPieces input) = []"
    by (auto simp: filter_empty_conv blankOrComment_def)
  then show ?thesis
    by (simp add: parseUrls_normalizeEach normalizeEach_spec)
qed

text \<open>
  A comment line that holds a comma is two pieces, and the second one is not a comment:
  the text is nothing but one comment line, and \<^verbatim>\<open>parseUrls\<close> gives a URL for it.
\<close>

theorem parseUrls_comment_line_counterexample:
  "onlyBlankAndCommentLines commentWithComma \<and> parseUrls commentWithComma = [''https://b.com'']"
  by code_simp

text \<open>
  C8. \<^verbatim>\<open>parseUrls\<close> is the normalise-and-split of the specification, and no piece it
  normalises holds a newline or a comma. Every URL it gives is non-empty, starts with
  \<open>http\<close> and does not end with a slash. Nothing is merged or reordered: on pieces joined
  by a newline or a comma it gives the normalised pieces that are kept, one for each
  occurrence, in the order of the input. An input whose pieces between newlines and commas
  are all blank or comments gives the empty list; so does an input without a comma whose
  lines are all blank or comments.
\<close>

theorem parseUrls_pieces:
  "parseUrls input = normalizeAndSplit input \<and>
   (\<forall>piece \<in> set (splitPieces input). \<forall>c \<in> set piece. c \<noteq> CHR 0x0A \<and> c \<noteq> CHR '','') \<and>
   (\<forall>u \<in> set (parseUrls input). u \<noteq> [] \<and> startsWith u ''http'' \<and> last u \<noteq> CHR ''/'') \<and>
   (isSeparator sep \<and> (\<forall>piece \<in> set pieces. \<forall>c \<in> set piece. \<not> isSeparator c) \<longrightarrow>
      parseUrls (joinWith sep pieces) =
        map the (filter (\<lambda>u. u \<noteq> None) (map normalizeUrl pieces))) \<and>
   ((\<forall>piece \<in> set (splitPieces input). blankOrComment piece) \<longrightarrow> parseUrls input = []) \<and>
   ((\<forall>c \<in> set input. c \<noteq> CHR '','') \<and> onlyBlankAndCommentLines input \<longrightarrow> parseUrls input = [])"
proof (intro conjI ballI impI)
  show "parseUrls input = normalizeAndSplit input"
    by (simp add: parseUrls_normalizeEach normalizeEach_spec normalizeAndSplit_def)
next
  fix piece c
  assume "piece \<in> set (splitPieces input)" "c \<in> set piece"
  then have *: "\<not> isSeparator c"
    by (rule splitPieces_no_separator)
  from * show "c \<noteq> CHR 0x0A" by (auto simp: isSeparator_def)
  from * show "c \<noteq> CHR '',''" by (auto simp: isSeparator_def)
next
  fix u
  assume "u \<in> set (parseUrls input)"
  then obtain piece where "normalizeUrl piece = Some u"
    using normalizeEach_elements [of u "splitPieces input"]
    by (auto simp: parseUrls_normalizeEach)
  then have *: "u \<noteq> [] \<and> startsWith u ''http'' \<and> last u \<noteq> CHR ''/''"
    by (rule normalizeUrl_Some)
  from * show "u \<noteq> []" by simp
  from * show "startsWith u ''http''" by simp
  from * show "last u \<noteq> CHR ''/''" by simp
next
  assume "isSeparator sep \<and> (\<forall>piece \<in> set pieces. \<forall>c \<in> set piece. \<not> isSeparator c)"
  then have "parseUrls (joinWith sep pieces) = normalizeEach pieces"
    using parseUrls_joinWith [of sep pieces] by blast
  then show "parseUrls (joinWith sep pieces) =
        map the (filter (\<lambda>u. u \<noteq> None) (map normalizeUrl pieces))"
    by (simp add: normalizeEach_def)
next
  assume "\<forall>piece \<in> set (splitPieces input). blankOrComment piece"
  then show "parseUrls input = []"
    by (rule parseUrls_blank_pieces)
next
  assume "(\<forall>c \<in> set input. c \<noteq> CHR '','') \<and> onlyBlankAndCommentLines input"
  then have "\<forall>piece \<in> set (splitPieces input). blankOrComment piece"
    using pieces_blank_of_lines [of input] by blast
  then show "parseUrls input = []"
    by (rule parseUrls_blank_pieces)
qed

theorem parseUrls_pieces_witness:
  "parseUrls (joinWith (CHR 0x0A) pastedLines) =
     [''https://a.com'', ''http://b.example'', ''https://a.com''] \<and>
   parseUrls commentPieces = [] \<and>
   parseUrls commentsOnly = []"
proof -
  have sep: "isSeparator (CHR 0x0A)"
    by (simp add: isSeparator_def)
  have free: "\<forall>piece \<in> set pastedLines. \<forall>c \<in> set piece. \<not> isSeparator c"
    by code_simp
  have each: "map the (filter (\<lambda>u. u \<noteq> None) (map normalizeUrl pastedLines)) =
                [''https://a.com'', ''http://b.example'', ''https://a.com'']"
    by code_simp
  have blank: "\<forall>piece \<in> set (splitPieces commentPieces). blankOrComment piece"
    by code_simp
  have nocomma: "\<forall>c \<in> set commentsOnly. c \<noteq> CHR '',''"
    by code_simp
  have lines: "onlyBlankAndCommentLines commentsOnly"
    by code_simp
  have a: "parseUrls (joinWith (CHR 0x0A) pastedLines) =
             [''https://a.com'', ''http://b.example'', ''https://a.com'']"
    using parseUrls_pieces [of "[]" "CHR 0x0A" pastedLines, THEN conjunct2, THEN conjunct2,
        THEN conjunct2, THEN conjunct1] sep free each
    by simp
  have b: "parseUrls commentPieces = []"
    using parseUrls_pieces [of commentPieces "CHR 0x0A" "[]", THEN conjunct2, THEN conjunct2,
        THEN conjunct2, THEN conjunct2, THEN conjunct1] blank
    by simp
  have c: "parseUrls commentsOnly = []"
    using parseUrls_pieces [of commentsOnly "CHR 0x0A" "[]", THEN conjunct2, THEN conjunct2,
        THEN conjunct2, THEN conjunct2, THEN conjunct2] nocomma lines
    by simp
  from a b c show ?thesis by blast
qed

subsection \<open>The batch endpoint\<close>

lemma batch_results:
  assumes "i \<le> length urls"
  shows "map (\<lambda>(k, u). f k u)
           (zip [i ..< i + length (take c (drop i urls))] (take c (drop i urls))) =
         map (\<lambda>k. f k (urls ! k)) [i ..< min (i + c) (length urls)]"
proof (rule nth_equalityI)
  show "length (map (\<lambda>(k, u). f k u)
           (zip [i ..< i + length (take c (drop i urls))] (take c (drop i urls)))) =
        length (map (\<lambda>k. f k (urls ! k)) [i ..< min (i + c) (length urls)])"
    using assms by auto
next
  fix j
  assume "j < length (map (\<lambda>(k, u). f k u)
           (zip [i ..< i + length (take c (drop i urls))] (take c (drop i urls))))"
  then have j: "j < c" "i + j < length urls"
    by auto
  then have "i + j < min (i + c) (length urls)"
    by simp
  with j show "map (\<lambda>(k, u). f k u)
           (zip [i ..< i + length (take c (drop i urls))] (take c (drop i urls))) ! j =
         map (\<lambda>k. f k (urls ! k)) [i ..< min (i + c) (length urls)] ! j"
    by simp
qed

lemma enqueued_all:
  "enqueued ps urls i = map (\<lambda>k. checkStore (ps k) (urls ! k)) [i ..< length urls]"
proof (induction ps urls i rule: enqueued.induct)
  case (1 ps urls i)
  show ?case
  proof (cases "i < length urls")
    case False
    then show ?thesis
      by (subst enqueued.simps) simp
  next
    case True
    let ?f = "\<lambda>k. checkStore (ps k) (urls ! k)"
    let ?m = "min (i + CONCURRENCY) (length urls)"
    have IH: "enqueued ps urls (i + CONCURRENCY) = map ?f [i + CONCURRENCY ..< length urls]"
      using "1.IH" [OF True refl refl] .
    have batch: "map (\<lambda>(k, u). checkStore (ps k) u)
                   (zip [i ..< i + length (take CONCURRENCY (drop i urls))]
                        (take CONCURRENCY (drop i urls))) = map ?f [i ..< ?m]"
      using True by (intro batch_results) simp
    have split: "[i ..< length urls] = [i ..< ?m] @ [i + CONCURRENCY ..< length urls]"
    proof (cases "i + CONCURRENCY \<le> length urls")
      case True
      then have "?m = i + CONCURRENCY" by simp
      moreover have "[i ..< length urls] = [i ..< i + CONCURRENCY] @ [i + CONCURRENCY ..< length urls]"
        using True upt_add_eq_append [of i "i + CONCURRENCY" "length urls - (i + CONCURRENCY)"]
        by simp
      ultimately show ?thesis by simp
    next
      case False
      then show ?thesis by simp
    qed
    have "enqueued ps urls i = map ?f [i ..< ?m] @ map ?f [i + CONCURRENCY ..< length urls]"
      using True batch IH by (subst enqueued.simps) (simp add: Let_def)
    also have "\<dots> = map ?f [i ..< length urls]"
      by (subst split) simp
    finally show ?thesis .
  qed
qed

text \<open>
  C9. When the strings of the request, split and normalised, come to more than 100 URLs,
  the endpoint streams the results of exactly the first 100 of them, in order, the call
  number \<open>k\<close> classifying the URL number \<open>k\<close>; for the others there is no call.
\<close>

theorem batch_cap:
  assumes "100 < length (concat (map parseUrls rawList))"
  shows "POST ps (StringArray rawList) =
           Stream (map (\<lambda>k. checkStore (ps k) (concat (map parseUrls rawList) ! k)) [0 ..< 100])"
proof -
  let ?all = "concat (map parseUrls rawList)"
  from assms have raw: "rawList \<noteq> []"
    by (cases rawList) simp_all
  from assms have len: "length (take 100 ?all) = 100"
    by simp
  then have ne: "take 100 ?all \<noteq> []"
    by (metis length_0_conv zero_neq_numeral)
  have "map (\<lambda>k. checkStore (ps k) (take 100 ?all ! k)) [0 ..< 100] =
        map (\<lambda>k. checkStore (ps k) (?all ! k)) [0 ..< 100]"
    by (rule map_cong) simp_all
  with raw ne len show ?thesis
    by (simp add: POST_def Let_def enqueued_all)
qed

lemma concat_replicate_single: "concat (replicate n [x]) = replicate n x"
  by (induction n) simp_all

theorem batch_cap_witness:
  "POST (\<lambda>k. notFound) (StringArray (replicate 150 ''a.com'')) =
     Stream (replicate 100 (checkStore notFound ''https://a.com''))"
proof -
  have one: "parseUrls ''a.com'' = [''https://a.com'']"
    by code_simp
  then have all: "concat (map parseUrls (replicate 150 ''a.com'')) = replicate 150 ''https://a.com''"
    by (simp add: concat_replicate_single)
  have "map (\<lambda>k. checkStore notFound (replicate 150 ''https://a.com'' ! k)) [0 ..< 100] =
        map (\<lambda>k. checkStore notFound ''https://a.com'') [0 ..< 100]"
    by (rule map_cong) simp_all
  then show ?thesis
    using batch_cap [of "replicate 150 ''a.com''" "\<lambda>k. notFound"] all
    by (simp add: map_replicate_const)
qed

end
